theory Spec2Isabelle
  imports Complex_Main
begin

section \<open>Values, rows and errors\<close>

text \<open>
  The script \<^verbatim>\<open>src/Train/Project.py\<close> works on pandas objects whose cells are Python
  values. A cell is a number, the missing-value marker \<^verbatim>\<open>nan\<close>, a string or a boolean
  (the indicator columns that \<^verbatim>\<open>get_dummies\<close> produces). Python floats are modelled
  by exact reals: rounding and overflow are outside this theory.
\<close>

datatype pyval = Num real | NaN | Str string | Bool bool

text \<open>
  Exceptions are values. \<open>Unmodelled\<close> is not a Python exception: it marks the inputs on
  which Python leaves the real numbers without raising (a negative base under a
  fractional power gives a complex number, \<^verbatim>\<open>log1p(-1)\<close> gives minus infinity). The
  embedding stops there.
\<close>

datatype error = KeyError string | IndexError | TypeError | ValueError | Unmodelled

text \<open>
  A row handed to \<^verbatim>\<open>calculate_cocomo_effort\<close> is a pandas Series: a finite map from
  column labels to cells. \<^verbatim>\<open>'k' in row\<close> asks whether the label is there.
\<close>

type_synonym row = "string \<rightharpoonup> pyval"

definition cost_drivers :: "string list" where
  "cost_drivers = [''rely'', ''data'', ''cplx'', ''time'', ''stor'', ''virt'', ''turn'',
                   ''acap'', ''aexp'', ''pcap'', ''vexp'', ''lexp'', ''modp'', ''tool'', ''sced'']"

subsection \<open>Python operators on cells\<close>

text \<open>\<^verbatim>\<open>v == 1\<close>: true for the number one and for \<^verbatim>\<open>True\<close>, false for every other cell.\<close>

fun eq_one :: "pyval \<Rightarrow> bool" where
  "eq_one (Num x) = (x = 1)"
| "eq_one (Bool b) = b"
| "eq_one NaN = False"
| "eq_one (Str s) = False"

text \<open>\<^verbatim>\<open>v == 'text'\<close>: true for that string only.\<close>

fun eq_str :: "pyval \<Rightarrow> string \<Rightarrow> bool" where
  "eq_str (Str s) t = (s = t)"
| "eq_str (Num x) t = False"
| "eq_str NaN t = False"
| "eq_str (Bool b) t = False"

text \<open>
  \<^verbatim>\<open>x * v\<close> for a float \<open>x\<close> (the accumulator \<^verbatim>\<open>em\<close> and the product \<^verbatim>\<open>a * kloc ** b\<close> are
  floats in every call): a boolean counts as 0 or 1, \<^verbatim>\<open>nan\<close> is absorbing, a string
  raises TypeError.
\<close>

fun float_times :: "pyval \<Rightarrow> pyval \<Rightarrow> error + pyval" where
  "float_times (Num x) (Num y) = Inr (Num (x * y))"
| "float_times (Num x) (Bool b) = Inr (Num (x * of_bool b))"
| "float_times (Num x) NaN = Inr NaN"
| "float_times NaN (Num y) = Inr NaN"
| "float_times NaN (Bool b) = Inr NaN"
| "float_times NaN NaN = Inr NaN"
| "float_times x y = Inl TypeError"

text \<open>
  \<^verbatim>\<open>v ** b\<close> for one of the positive float exponents of the script. For a negative base
  Python answers with a complex number, which is not modelled.
\<close>

fun py_pow :: "pyval \<Rightarrow> real \<Rightarrow> error + pyval" where
  "py_pow (Num x) b = (if 0 \<le> x then Inr (Num (x powr b)) else Inl Unmodelled)"
| "py_pow (Bool c) b = Inr (Num (of_bool c powr b))"
| "py_pow NaN b = Inr NaN"
| "py_pow (Str s) b = Inl TypeError"

text \<open>
  \<^verbatim>\<open>np.log1p(v)\<close>: \<open>ln (1 + x)\<close> above \<open>-1\<close>, \<^verbatim>\<open>nan\<close> below it (numpy warns and does not
  raise), minus infinity at \<open>-1\<close> (not modelled).
\<close>

fun log1p :: "pyval \<Rightarrow> error + pyval" where
  "log1p (Num x) =
     (if - 1 < x then Inr (Num (ln (1 + x)))
      else if x = - 1 then Inl Unmodelled else Inr NaN)"
| "log1p (Bool c) = Inr (Num (ln (1 + of_bool c)))"
| "log1p NaN = Inr NaN"
| "log1p (Str s) = Inl TypeError"

section \<open>The parametric estimator\<close>

text \<open>
  Lines 113 to 128 of \<^verbatim>\<open>calculate_cocomo_effort\<close>: the coefficient pair. The one-hot
  indicators are looked at first, then the \<^verbatim>\<open>dev_mode\<close> text, then the default.
\<close>

definition flag_set :: "row \<Rightarrow> string \<Rightarrow> bool" where
  "flag_set row k = (case row k of None \<Rightarrow> False | Some v \<Rightarrow> eq_one v)"

definition mode_coefficients :: "row \<Rightarrow> real \<times> real" where
  "mode_coefficients row =
     (if flag_set row ''mode_organic'' then (2.4, 1.05)
      else if flag_set row ''mode_semidetached'' then (3.0, 1.12)
      else if flag_set row ''mode_embedded'' then (3.6, 1.20)
      else (case row ''dev_mode'' of
              Some m \<Rightarrow>
                (if eq_str m ''organic'' then (2.4, 1.05)
                 else if eq_str m ''semidetached'' then (3.0, 1.12)
                 else (3.6, 1.20))
            | None \<Rightarrow> (3.6, 1.20)))"

text \<open>
  Lines 131 to 134: the loop over the cost drivers, with the accumulator \<^verbatim>\<open>em\<close>. A
  driver whose label is not on the row is skipped.
\<close>

fun effort_multiplier :: "row \<Rightarrow> string list \<Rightarrow> pyval \<Rightarrow> error + pyval" where
  "effort_multiplier row [] em = Inr em"
| "effort_multiplier row (driver # rest) em =
     (case row driver of
        None \<Rightarrow> effort_multiplier row rest em
      | Some v \<Rightarrow>
          (case float_times em v of
             Inl e \<Rightarrow> Inl e
           | Inr em' \<Rightarrow> effort_multiplier row rest em'))"

text \<open>Lines 137 to 140: \<^verbatim>\<open>row['loc']\<close> raises KeyError when the label is missing.\<close>

definition calculate_cocomo_effort :: "row \<Rightarrow> error + pyval" where
  "calculate_cocomo_effort row =
     (case mode_coefficients row of (a, b) \<Rightarrow>
        (case effort_multiplier row cost_drivers (Num 1) of
           Inl e \<Rightarrow> Inl e
         | Inr em \<Rightarrow>
             (case row ''loc'' of
                None \<Rightarrow> Inl (KeyError ''loc'')
              | Some kloc \<Rightarrow>
                  (case py_pow kloc b of
                     Inl e \<Rightarrow> Inl e
                   | Inr p \<Rightarrow>
                       (case float_times (Num a) p of
                          Inl e \<Rightarrow> Inl e
                        | Inr ap \<Rightarrow>
                            (case float_times ap em of
                               Inl e \<Rightarrow> Inl e
                             | Inr effort \<Rightarrow> log1p effort))))))"

text \<open>The labels the estimator can read: nothing else on a row reaches its result.\<close>

definition estimator_inputs :: "string list" where
  "estimator_inputs =
     [''mode_organic'', ''mode_semidetached'', ''mode_embedded'', ''dev_mode'', ''loc'']
     @ cost_drivers"

text \<open>The drivers whose label is on the row, in the order of the loop.\<close>

definition present_drivers :: "row \<Rightarrow> string list" where
  "present_drivers row = filter (\<lambda>d. row d \<noteq> None) cost_drivers"

section \<open>Tables and the store\<close>

text \<open>
  A pandas column is a buffer of cells; a table (DataFrame) is a list of labelled
  columns. \<^verbatim>\<open>read_csv\<close> is called without an index column, so the rows are numbered from
  0 and a row label is a position.
\<close>

type_synonym column = "pyval list"
type_synonym table = "(string \<times> column) list"

text \<open>
  The script updates \<^verbatim>\<open>X\<close> in place (\<^verbatim>\<open>fillna(..., inplace=True)\<close> and the assignment to
  \<^verbatim>\<open>X[numeric_features]\<close>). To say which objects an update reaches, columns live in a
  store of buffers and a frame holds the address of each of its columns. A Series taken
  with \<^verbatim>\<open>df['label']\<close> shares the buffer of the frame's column.
\<close>

record store =
  buffers :: "nat \<Rightarrow> column"
  next_free :: nat

type_synonym frame = "(string \<times> nat) list"

definition frame_columns :: "store \<Rightarrow> frame \<Rightarrow> table" where
  "frame_columns st df = map (\<lambda>(c, a). (c, buffers st a)) df"

text \<open>A new object gets fresh buffers: the addresses from \<open>next_free\<close> on.\<close>

definition alloc_all :: "table \<Rightarrow> store \<Rightarrow> frame \<times> store" where
  "alloc_all cols st =
     (let n = next_free st in
        (zip (map fst cols) [n ..< n + length cols],
         st\<lparr>buffers := (\<lambda>a. if n \<le> a \<and> a < n + length cols
                              then snd (cols ! (a - n)) else buffers st a),
            next_free := n + length cols\<rparr>))"

definition nrows :: "table \<Rightarrow> nat" where
  "nrows t = (case t of [] \<Rightarrow> 0 | (c, col) # rest \<Rightarrow> length col)"

text \<open>Row \<open>i\<close> of a table, as the Series that \<^verbatim>\<open>apply(..., axis=1)\<close> hands over.\<close>

definition row_at :: "table \<Rightarrow> nat \<Rightarrow> row" where
  "row_at t i =
     (\<lambda>c. case map_of t c of
            None \<Rightarrow> None
          | Some col \<Rightarrow> if i < length col then Some (col ! i) else None)"

definition and_then :: "error + 'a \<Rightarrow> ('a \<Rightarrow> error + 'b) \<Rightarrow> error + 'b" where
  "and_then m f = (case m of Inl e \<Rightarrow> Inl e | Inr x \<Rightarrow> f x)"

text \<open>Running a function over a list stops at the first exception.\<close>

fun map_result :: "('a \<Rightarrow> error + 'b) \<Rightarrow> 'a list \<Rightarrow> error + 'b list" where
  "map_result f [] = Inr []"
| "map_result f (x # xs) =
     (case f x of
        Inl e \<Rightarrow> Inl e
      | Inr y \<Rightarrow> (case map_result f xs of Inl e \<Rightarrow> Inl e | Inr ys \<Rightarrow> Inr (y # ys)))"

text \<open>\<^verbatim>\<open>col[positions]\<close>: a position outside the column raises.\<close>

definition pick :: "'a list \<Rightarrow> nat list \<Rightarrow> error + 'a list" where
  "pick col idx =
     (if \<forall>i\<in>set idx. i < length col then Inr (map (\<lambda>i. col ! i) idx) else Inl IndexError)"

text \<open>One new buffer.\<close>

definition alloc :: "column \<Rightarrow> store \<Rightarrow> nat \<times> store" where
  "alloc col st =
     (next_free st,
      st\<lparr>buffers := (buffers st)(next_free st := col), next_free := Suc (next_free st)\<rparr>)"

section \<open>The feature builder\<close>

text \<open>\<^verbatim>\<open>df[[labels]]\<close>: the listed columns, KeyError for a label that is not there.\<close>

fun select_columns :: "table \<Rightarrow> string list \<Rightarrow> error + table" where
  "select_columns df [] = Inr []"
| "select_columns df (c # cs) =
     (case map_of df c of
        None \<Rightarrow> Inl (KeyError c)
      | Some col \<Rightarrow>
          (case select_columns df cs of
             Inl e \<Rightarrow> Inl e
           | Inr rest \<Rightarrow> Inr ((c, col) # rest)))"

fun strings :: "column \<Rightarrow> string list" where
  "strings [] = []"
| "strings (Str s # vs) = s # strings vs"
| "strings (v # vs) = strings vs"

definition categories :: "column \<Rightarrow> string list" where
  "categories col = remdups (strings col)"

definition indicator :: "string \<Rightarrow> column \<Rightarrow> column" where
  "indicator s col = map (\<lambda>v. Bool (v = Str s)) col"

text \<open>
  Modelled from the spec: \<^verbatim>\<open>pandas.get_dummies\<close> is library code outside the repository.
  Section 2 of the spec: the feature builder "one-hot-encodes a categorical
  development-mode column". The encoded table keeps the other columns and gets one
  indicator column \<^verbatim>\<open>prefix_category\<close> for each category text that occurs in the column;
  a missing value belongs to no category (a cell that is a number would get a column
  under a label the script never asks for; it is left out). The library orders the
  indicator columns by category; the script finds them by label only. A table that
  already has a column with an indicator's label is not modelled.
\<close>

definition get_dummies :: "table \<Rightarrow> string \<Rightarrow> string \<Rightarrow> error + table" where
  "get_dummies df c prefix =
     (case map_of df c of
        None \<Rightarrow> Inl (KeyError c)
      | Some col \<Rightarrow>
          (let kept = filter (\<lambda>(l, vs). l \<noteq> c) df;
               dummies = map (\<lambda>s. (prefix @ ''_'' @ s, indicator s col)) (categories col)
           in if \<exists>l\<in>set (map fst dummies). l \<in> set (map fst kept)
              then Inl Unmodelled else Inr (kept @ dummies)))"

definition mode_columns :: "string list" where
  "mode_columns = [''mode_embedded'', ''mode_organic'', ''mode_semidetached'']"

text \<open>
  Lines 29 to 37. \<^verbatim>\<open>pd.concat\<close> copies: \<^verbatim>\<open>X\<close> is a new object with buffers of its own.
  \<^verbatim>\<open>y\<close> is \<^verbatim>\<open>data['actual']\<close>, the address of that column of \<^verbatim>\<open>data\<close>.
\<close>

definition feature_table :: "table \<Rightarrow> error + table" where
  "feature_table data =
     and_then (get_dummies data ''dev_mode'' ''mode'') (\<lambda>data_encoded.
     and_then (select_columns data (''loc'' # cost_drivers)) (\<lambda>numeric.
     and_then (select_columns data_encoded mode_columns) (\<lambda>modes.
     Inr (numeric @ modes))))"

definition feature_builder :: "store \<Rightarrow> frame \<Rightarrow> error + frame \<times> nat \<times> store" where
  "feature_builder st data =
     and_then (feature_table (frame_columns st data)) (\<lambda>cols.
     (case alloc_all cols st of (X, st') \<Rightarrow>
        (case map_of data ''actual'' of
           None \<Rightarrow> Inl (KeyError ''actual'')
         | Some y \<Rightarrow> Inr (X, y, st'))))"

section \<open>The imputer\<close>

fun is_text :: "pyval \<Rightarrow> bool" where
  "is_text (Str s) = True"
| "is_text v = False"

text \<open>A column read from the file has dtype \<^verbatim>\<open>object\<close> when it holds a text.\<close>

definition is_object :: "column \<Rightarrow> bool" where
  "is_object col = (\<exists>v\<in>set col. is_text v)"

text \<open>The numbers of a column, missing values skipped.\<close>

fun observed :: "column \<Rightarrow> real list" where
  "observed [] = []"
| "observed (Num x # vs) = x # observed vs"
| "observed (Bool b # vs) = of_bool b # observed vs"
| "observed (v # vs) = observed vs"

text \<open>
  Modelled from the spec: \<^verbatim>\<open>Series.median\<close> is library code. Section 4.2: "the median of
  observed values"; a column without an observed value has the median \<^verbatim>\<open>nan\<close>.
\<close>

definition median :: "column \<Rightarrow> pyval" where
  "median col =
     (let xs = sort (observed col); n = length xs in
        if n = 0 then NaN
        else if odd n then Num (xs ! (n div 2))
        else Num ((xs ! (n div 2 - 1) + xs ! (n div 2)) / 2))"

definition fillna :: "column \<Rightarrow> pyval \<Rightarrow> column" where
  "fillna col v = map (\<lambda>x. if x = NaN then v else x) col"

text \<open>
  Lines 44 to 49: the loop over the columns of \<^verbatim>\<open>X\<close>, writing into the buffers of \<^verbatim>\<open>X\<close>.
  \<open>mode0\<close> stands for \<^verbatim>\<open>X[col].mode()[0]\<close>, the library's most frequent value of a text
  column; it is a parameter.
\<close>

fun impute_columns :: "(column \<Rightarrow> error + pyval) \<Rightarrow> store \<Rightarrow> frame \<Rightarrow> error + store" where
  "impute_columns mode0 st [] = Inr st"
| "impute_columns mode0 st ((c, a) # rest) =
     (let col = buffers st a in
        (case (if is_object col then mode0 col else Inr (median col)) of
           Inl e \<Rightarrow> Inl e
         | Inr fill_value \<Rightarrow>
             impute_columns mode0
               (st\<lparr>buffers := (buffers st)(a := fillna col fill_value)\<rparr>) rest))"

section \<open>The scaler\<close>

fun is_float_cell :: "pyval \<Rightarrow> bool" where
  "is_float_cell (Num x) = True"
| "is_float_cell NaN = True"
| "is_float_cell v = False"

text \<open>\<^verbatim>\<open>select_dtypes(include=['float64', 'int64'])\<close>: the columns of numbers.\<close>

definition is_numeric :: "column \<Rightarrow> bool" where
  "is_numeric col = list_all is_float_cell col"

definition mean :: "real list \<Rightarrow> real" where
  "mean xs = sum_list xs / real (length xs)"

definition std :: "real list \<Rightarrow> real" where
  "std xs = sqrt (mean (map (\<lambda>x. (x - mean xs)\<^sup>2) xs))"

text \<open>
  Modelled from the spec: \<^verbatim>\<open>StandardScaler\<close> is library code. Section 4.3: it "fits a
  per-feature affine transform \<open>z = (x - mean) / std\<close> from a reference population" and
  keeps the per-feature (mean, standard deviation) pair. Missing values take no part in
  the fit and stay missing; a column without an observed value has no statistics. The
  spec leaves the quotient by a zero standard deviation open: the model reads it as
  \<^verbatim>\<open>nan\<close>.
\<close>

definition fit_column :: "column \<Rightarrow> pyval \<times> pyval" where
  "fit_column col =
     (let xs = observed col in
        if xs = [] then (NaN, NaN) else (Num (mean xs), Num (std xs)))"

fun transform_cell :: "pyval \<times> pyval \<Rightarrow> pyval \<Rightarrow> pyval" where
  "transform_cell (Num m, Num s) (Num x) = (if s = 0 then NaN else Num ((x - m) / s))"
| "transform_cell p v = NaN"

definition numeric_features :: "store \<Rightarrow> frame \<Rightarrow> frame" where
  "numeric_features st X = filter (\<lambda>(c, a). is_numeric (buffers st a)) X"

fun transform_in_place :: "store \<Rightarrow> frame \<Rightarrow> store" where
  "transform_in_place st [] = st"
| "transform_in_place st ((c, a) # rest) =
     transform_in_place
       (st\<lparr>buffers := (buffers st)(a := map (transform_cell (fit_column (buffers st a)))
                                            (buffers st a))\<rparr>) rest"

text \<open>
  Lines 55 to 61: \<^verbatim>\<open>X_unscaled = X.copy()\<close>, then \<^verbatim>\<open>fit_transform\<close> on the numeric
  columns of \<^verbatim>\<open>X\<close>, written back into \<^verbatim>\<open>X\<close>. The result is \<^verbatim>\<open>X_unscaled\<close>, the fitted
  (label, mean, standard deviation) triples and the store. The library rejects a table
  without rows or without columns.
\<close>

definition scale_features ::
  "store \<Rightarrow> frame \<Rightarrow> error + frame \<times> (string \<times> pyval \<times> pyval) list \<times> store" where
  "scale_features st X =
     (let numeric = numeric_features st X in
        (case alloc_all (frame_columns st X) st of (X_unscaled, st1) \<Rightarrow>
           if numeric = [] \<or> nrows (frame_columns st X) = 0 then Inl ValueError
           else Inr (X_unscaled,
                     map (\<lambda>(c, a). (c, fit_column (buffers st a))) numeric,
                     transform_in_place st1 numeric)))"

section \<open>The splitter and the baseline predictions\<close>

record split =
  X_train :: table
  X_test :: table
  y_train :: column
  y_test :: column
  test_indices :: "nat list"

definition take_rows :: "table \<Rightarrow> nat list \<Rightarrow> error + table" where
  "take_rows t idx = map_result (\<lambda>(c, col). and_then (pick col idx) (\<lambda>vs. Inr (c, vs))) t"

text \<open>
  Line 80. \<^verbatim>\<open>train_test_split\<close> is library code with a seeded shuffle inside. Its
  choice of rows is the parameter \<open>splitter\<close>: from the number of rows to the train
  positions and the test positions (or the library's exception). The four parts are
  new objects; \<^verbatim>\<open>y_test.index\<close> is the list of test positions.
\<close>

definition train_test_split ::
  "(nat \<Rightarrow> error + nat list \<times> nat list) \<Rightarrow> table \<Rightarrow> column \<Rightarrow> error + split" where
  "train_test_split splitter Xt yl =
     and_then (splitter (nrows Xt)) (\<lambda>(train, test).
     and_then (take_rows Xt train) (\<lambda>xtr.
     and_then (take_rows Xt test) (\<lambda>xte.
     and_then (pick yl train) (\<lambda>ytr.
     and_then (pick yl test) (\<lambda>yte.
     Inr \<lparr>X_train = xtr, X_test = xte, y_train = ytr, y_test = yte,
          test_indices = test\<rparr>)))))"

text \<open>
  Modelled from the spec: the body of \<^verbatim>\<open>train_test_split\<close> is library code. Section 2
  of the spec: the splitter "partitions rows into train/test subsets with a fixed random
  seed and ratio". The sizes follow the library's rule: the test part has
  \<open>\<lceil>test_size * n\<rceil>\<close> rows, the train part the rest, and an empty train part is refused.
  The seeded generator is the parameter \<open>shuffle\<close>: from the seed and the number of
  rows to an ordering of the positions; the test rows are its first entries and the
  train rows the following ones.
\<close>

definition shuffle_split ::
  "(nat \<Rightarrow> nat \<Rightarrow> nat list) \<Rightarrow> real \<Rightarrow> nat \<Rightarrow> nat \<Rightarrow> error + nat list \<times> nat list" where
  "shuffle_split shuffle test_size random_state n =
     (let n_test = nat \<lceil>test_size * real n\<rceil>; n_train = n - n_test in
        if n_train = 0 then Inl ValueError
        else (let permutation = shuffle random_state n in
                Inr (take n_train (drop n_test permutation), take n_test permutation)))"

text \<open>Line 80: \<^verbatim>\<open>test_size=0.2, random_state=42\<close>.\<close>

definition script_splitter :: "(nat \<Rightarrow> nat \<Rightarrow> nat list) \<Rightarrow> nat \<Rightarrow> error + nat list \<times> nat list" where
  "script_splitter shuffle = shuffle_split shuffle 0.2 42"

text \<open>\<^verbatim>\<open>df.apply(f, axis=1)\<close>: \<open>f\<close> on every row, from the first to the last.\<close>

definition apply_rows :: "(row \<Rightarrow> error + pyval) \<Rightarrow> table \<Rightarrow> error + column" where
  "apply_rows f t = map_result f (map (row_at t) [0 ..< nrows t])"

text \<open>\<^verbatim>\<open>df['label'] = values\<close>: the label now names the new buffer.\<close>

definition set_column :: "frame \<Rightarrow> string \<Rightarrow> nat \<Rightarrow> frame" where
  "set_column df c a =
     (if c \<in> set (map fst df) then map (\<lambda>(l, b). if l = c then (l, a) else (l, b)) df
      else df @ [(c, a)])"

text \<open>Line 143: the estimator on every row of \<^verbatim>\<open>data\<close>, stored as a new column of \<^verbatim>\<open>data\<close>.\<close>

definition add_effort_cocomo :: "store \<Rightarrow> frame \<Rightarrow> error + frame \<times> store" where
  "add_effort_cocomo st data =
     and_then (apply_rows calculate_cocomo_effort (frame_columns st data)) (\<lambda>effort.
     (case alloc effort st of (a, st') \<Rightarrow>
        Inr (set_column data ''effort_cocomo'' a, st')))"

text \<open>Lines 146 and 147: \<^verbatim>\<open>data.loc[test_indices, 'effort_cocomo'].values\<close>.\<close>

definition cocomo_predictions :: "store \<Rightarrow> frame \<Rightarrow> nat list \<Rightarrow> error + column" where
  "cocomo_predictions st data idx =
     (case map_of data ''effort_cocomo'' of
        None \<Rightarrow> Inl (KeyError ''effort_cocomo'')
      | Some a \<Rightarrow>
          (if \<forall>i\<in>set idx. i < length (buffers st a)
           then Inr (map (\<lambda>i. buffers st a ! i) idx)
           else Inl (KeyError ''index'')))"

section \<open>The run up to the baseline predictions\<close>

text \<open>
  The global variables of the script after line 147. The three learned estimators
  (lines 89 to 105) are fitted by library code on \<^verbatim>\<open>X_train\<close> and \<^verbatim>\<open>y_train\<close>; they write
  to none of these variables and are left out. Console output and the plots are not
  modelled.
\<close>

record run =
  store_out :: store
  data_out :: frame
  X_out :: frame
  X_unscaled_out :: frame
  y_out :: nat
  y_log_out :: column
  scaler_out :: "(string \<times> pyval \<times> pyval) list"
  split_out :: split
  cocomo_pred_out :: column

definition pipeline ::
  "(column \<Rightarrow> error + pyval) \<Rightarrow> (nat \<Rightarrow> error + nat list \<times> nat list) \<Rightarrow>
   store \<Rightarrow> frame \<Rightarrow> error + run" where
  "pipeline mode0 splitter st0 data =
     and_then (feature_builder st0 data) (\<lambda>(X, y, st1).
     and_then (impute_columns mode0 st1 X) (\<lambda>st2.
     and_then (scale_features st2 X) (\<lambda>(X_unscaled, scaler, st3).
     and_then (map_result log1p (buffers st3 y)) (\<lambda>y_log.
     and_then (train_test_split splitter (frame_columns st3 X) y_log) (\<lambda>sp.
     and_then (add_effort_cocomo st3 data) (\<lambda>(data', st4).
     and_then (cocomo_predictions st4 data' (test_indices sp)) (\<lambda>pred.
     Inr \<lparr>store_out = st4, data_out = data', X_out = X, X_unscaled_out = X_unscaled,
          y_out = y, y_log_out = y_log, scaler_out = scaler, split_out = sp,
          cocomo_pred_out = pred\<rparr>)))))))"

section \<open>The evaluator\<close>

text \<open>
  Modelled from the spec: \<^verbatim>\<open>mean_absolute_error\<close>, \<^verbatim>\<open>mean_squared_error\<close> and \<^verbatim>\<open>r2_score\<close>
  are library code (\<^verbatim>\<open>sklearn.metrics\<close>) outside the repository. Section 4.6: "For a
  pair (true values, predicted values) of equal length: MAE = mean absolute deviation;
  RMSE = square root of mean squared deviation; \<open>R\<^sup>2\<close> = 1 - (sum of squared residuals /
  total sum of squares around the true mean)". Where the quotient does not exist the
  model follows what the library documents and does, not the spec's sentence on zero
  variance: with fewer than two rows the score is \<^verbatim>\<open>nan\<close> (here \<open>None\<close>); with two or more
  rows and a zero total sum of squares it is 1.0 when the residuals are zero too and 0.0
  otherwise.
\<close>

definition mean_absolute_error :: "real list \<Rightarrow> real list \<Rightarrow> real" where
  "mean_absolute_error y_true y_pred = mean (map2 (\<lambda>t p. \<bar>t - p\<bar>) y_true y_pred)"

definition mean_squared_error :: "real list \<Rightarrow> real list \<Rightarrow> real" where
  "mean_squared_error y_true y_pred = mean (map2 (\<lambda>t p. (t - p)\<^sup>2) y_true y_pred)"

definition total_sum_of_squares :: "real list \<Rightarrow> real" where
  "total_sum_of_squares y_true = sum_list (map (\<lambda>t. (t - mean y_true)\<^sup>2) y_true)"

definition residual_sum_of_squares :: "real list \<Rightarrow> real list \<Rightarrow> real" where
  "residual_sum_of_squares y_true y_pred = sum_list (map2 (\<lambda>t p. (t - p)\<^sup>2) y_true y_pred)"

definition r2_score :: "real list \<Rightarrow> real list \<Rightarrow> real option" where
  "r2_score y_true y_pred =
     (if length y_true < 2 then None
      else if total_sum_of_squares y_true \<noteq> 0
      then Some (1 - residual_sum_of_squares y_true y_pred / total_sum_of_squares y_true)
      else if residual_sum_of_squares y_true y_pred = 0 then Some 1 else Some 0)"

record metrics =
  mae :: real
  rmse :: real
  r2 :: "real option"

text \<open>
  Lines 158 to 168, on vectors of numbers. The means need a pair of equal length with
  at least one element; the model answers ValueError outside that.
\<close>

definition evaluate_model :: "real list \<Rightarrow> real list \<Rightarrow> error + metrics" where
  "evaluate_model y_true y_pred =
     (if length y_true \<noteq> length y_pred \<or> y_true = [] then Inl ValueError
      else Inr \<lparr>mae = mean_absolute_error y_true y_pred,
                rmse = sqrt (mean_squared_error y_true y_pred),
                r2 = r2_score y_true y_pred\<rparr>)"

text \<open>
  Lines 171 to 175: the dictionary \<^verbatim>\<open>results\<close>, in insertion order. \<open>targets\<close> is
  \<^verbatim>\<open>y_test\<close>.
\<close>

definition evaluate_all ::
  "real list \<Rightarrow> real list \<Rightarrow> real list \<Rightarrow> real list \<Rightarrow> real list \<Rightarrow>
   error + (string \<times> metrics) list" where
  "evaluate_all targets cocomo_pred lr_pred dt_pred rf_pred =
     and_then (evaluate_model targets cocomo_pred) (\<lambda>m1.
     and_then (evaluate_model targets lr_pred) (\<lambda>m2.
     and_then (evaluate_model targets dt_pred) (\<lambda>m3.
     and_then (evaluate_model targets rf_pred) (\<lambda>m4.
     Inr [(''COCOMO I'', m1), (''Linear Regression'', m2),
          (''Decision Tree'', m3), (''Random Forest'', m4)]))))"

section \<open>The reporter\<close>

text \<open>
  What \<^verbatim>\<open>joblib.dump\<close> can be handed here: \<^verbatim>\<open>None\<close>, a fitted estimator, the scaler. The
  disk maps a file name to the object last dumped under it.
\<close>

datatype ('m, 's) pyobj = PyNone | Model 'm | ScalerObj 's

type_synonym ('m, 's) disk = "string \<rightharpoonup> ('m, 's) pyobj"

text \<open>
  \<^verbatim>\<open>min(iterable, key=...)\<close> after its first element: a later element replaces the best
  one only when its key is strictly smaller.
\<close>

fun min_by_key :: "('a \<Rightarrow> real) \<Rightarrow> 'a \<Rightarrow> 'a list \<Rightarrow> 'a" where
  "min_by_key key best [] = best"
| "min_by_key key best (x # xs) = min_by_key key (if key x < key best then x else best) xs"

text \<open>Line 239. The keys of a dictionary are distinct, so a key stands for its entry.\<close>

definition best_model :: "(string \<times> metrics) list \<Rightarrow> error + string" where
  "best_model results =
     (case results of
        [] \<Rightarrow> Inl ValueError
      | r # rs \<Rightarrow> Inr (fst (min_by_key (\<lambda>x. rmse (snd x)) r rs)))"

text \<open>Lines 246 to 251.\<close>

definition model_objects :: "'m \<Rightarrow> 'm \<Rightarrow> 'm \<Rightarrow> (string \<times> ('m, 's) pyobj) list" where
  "model_objects lr_model dt_model rf_model =
     [(''COCOMO I'', PyNone), (''Linear Regression'', Model lr_model),
      (''Decision Tree'', Model dt_model), (''Random Forest'', Model rf_model)]"

text \<open>Lines 239 to 260: the name of the best model and the disk afterwards.\<close>

definition save_best ::
  "(string \<times> metrics) list \<Rightarrow> 'm \<Rightarrow> 'm \<Rightarrow> 'm \<Rightarrow> 's \<Rightarrow> ('m, 's) disk \<Rightarrow>
   error + string \<times> ('m, 's) disk" where
  "save_best results lr_model dt_model rf_model scaler disk =
     and_then (best_model results) (\<lambda>best.
       if best \<noteq> ''COCOMO I'' then
         (case map_of (model_objects lr_model dt_model rf_model) best of
            None \<Rightarrow> Inl (KeyError best)
          | Some best_model_object \<Rightarrow>
              Inr (best, disk(''trained_model.pkl'' \<mapsto> best_model_object,
                              ''scaler.pkl'' \<mapsto> ScalerObj scaler)))
       else Inr (best, disk))"

section \<open>The imputer and the scaler as functions on tables\<close>

text \<open>
  What the two in-place stages compute, as functions from table to table. The lemmas
  \<open>impute_columns_effect\<close> and \<open>scale_features_effect\<close> relate them to the loops above.
\<close>

definition fill_value :: "(column \<Rightarrow> error + pyval) \<Rightarrow> column \<Rightarrow> error + pyval" where
  "fill_value mode0 col = (if is_object col then mode0 col else Inr (median col))"

definition impute_table :: "(column \<Rightarrow> error + pyval) \<Rightarrow> table \<Rightarrow> error + table" where
  "impute_table mode0 t =
     map_result (\<lambda>(c, col). and_then (fill_value mode0 col) (\<lambda>v. Inr (c, fillna col v))) t"

definition scale_table :: "table \<Rightarrow> table" where
  "scale_table t =
     map (\<lambda>(c, col). (c, if is_numeric col then map (transform_cell (fit_column col)) col
                          else col)) t"

section \<open>Loading\<close>

text \<open>Line 15: the file, read into a new frame of an empty store.\<close>

definition empty_store :: store where
  "empty_store = \<lparr>buffers = (\<lambda>a. []), next_free = 0\<rparr>"

definition read_csv :: "table \<Rightarrow> frame \<times> store" where
  "read_csv file = alloc_all file empty_store"


section \<open>Sample inputs\<close>

text \<open>Concrete rows and tables on which the theorems below are instantiated.\<close>

definition rating_of :: "(string \<times> real) list \<Rightarrow> string \<Rightarrow> real" where
  "rating_of rs d = (case map_of rs d of Some x \<Rightarrow> x | None \<Rightarrow> 1)"

definition partial_row :: row where
  "partial_row = map_of [(''loc'', Num 10), (''dev_mode'', Str ''organic''),
                         (''rely'', Num 1.5), (''data'', Num 2), (''actual'', Num 40)]"

definition full_ratings :: "(string \<times> real) list" where
  "full_ratings = [(''rely'', 1.15), (''data'', 0.94), (''cplx'', 1.3), (''time'', 1.11),
     (''stor'', 1.06), (''virt'', 0.87), (''turn'', 1), (''acap'', 0.86), (''aexp'', 0.91),
     (''pcap'', 0.86), (''vexp'', 1.1), (''lexp'', 1), (''modp'', 1.24), (''tool'', 1.1),
     (''sced'', 1.04)]"

definition full_row :: row where
  "full_row = map_of ([(''loc'', Num 10), (''dev_mode'', Str ''semidetached''),
                       (''actual'', Num 40)]
                      @ map (\<lambda>(d, x). (d, Num x)) full_ratings)"

text \<open>
  A file of four projects. The last one has no \<open>rely\<close> rating and a development mode
  outside the three categories.
\<close>

definition sample_file :: table where
  "sample_file =
     [(''loc'', [Num 10, Num 20, Num 30, Num 60]),
      (''rely'', [Num 1.5, Num 1, Num 1, NaN])]
     @ map (\<lambda>d. (d, [Num 1, Num 1, Num 1, Num 1])) (tl cost_drivers)
     @ [(''dev_mode'', [Str ''organic'', Str ''semidetached'', Str ''embedded'', Str ''spiral'']),
        (''actual'', [Num 40, Num 100, Num 300, Num 900])]"

definition sample_data :: frame where "sample_data = fst (read_csv sample_file)"
definition sample_store :: store where "sample_store = snd (read_csv sample_file)"


text \<open>
  A stand-in for \<^verbatim>\<open>mode()[0]\<close> (no feature of the sample file is a text column), a
  split that tests on the last project, and the feature table of the sample file
  before and after imputation.
\<close>

definition sample_splitter :: "nat \<Rightarrow> error + nat list \<times> nat list" where
  "sample_splitter n = Inr ([0, 1, 2], [3])"

definition sample_mode0 :: "column \<Rightarrow> error + pyval" where
  "sample_mode0 col = (case strings col of [] \<Rightarrow> Inl ValueError | s # rest \<Rightarrow> Inr (Str s))"

definition sample_features :: table where
  "sample_features =
     [(''loc'', [Num 10, Num 20, Num 30, Num 60]),
      (''rely'', [Num 1.5, Num 1, Num 1, NaN])]
     @ map (\<lambda>d. (d, [Num 1, Num 1, Num 1, Num 1])) (tl cost_drivers)
     @ [(''mode_embedded'', [Bool False, Bool False, Bool True, Bool False]),
        (''mode_organic'', [Bool True, Bool False, Bool False, Bool False]),
        (''mode_semidetached'', [Bool False, Bool True, Bool False, Bool False])]"

definition sample_imputed :: table where
  "sample_imputed =
     [(''loc'', [Num 10, Num 20, Num 30, Num 60]),
      (''rely'', [Num 1.5, Num 1, Num 1, Num 1])]
     @ map (\<lambda>d. (d, [Num 1, Num 1, Num 1, Num 1])) (tl cost_drivers)
     @ [(''mode_embedded'', [Bool False, Bool False, Bool True, Bool False]),
        (''mode_organic'', [Bool True, Bool False, Bool False, Bool False]),
        (''mode_semidetached'', [Bool False, Bool True, Bool False, Bool False])]"

section \<open>Properties of the parametric estimator\<close>

lemma effort_multiplier_numeric:
  assumes "\<forall>d\<in>set ds. row d = None \<or> row d = Some (Num (rating d))"
  shows "effort_multiplier row ds (Num e) =
           Inr (Num (e * prod_list (map rating (filter (\<lambda>d. row d \<noteq> None) ds))))"
  using assms
proof (induction ds arbitrary: e)
  case Nil
  then show ?case by simp
next
  case (Cons d ds)
  then have rest: "\<forall>d\<in>set ds. row d = None \<or> row d = Some (Num (rating d))"
    by simp
  from Cons.prems have "row d = None \<or> row d = Some (Num (rating d))"
    by simp
  then show ?case
  proof
    assume "row d = None"
    then show ?thesis using Cons.IH [OF rest] by simp
  next
    assume "row d = Some (Num (rating d))"
    then show ?thesis using Cons.IH [OF rest] by (simp add: mult.assoc)
  qed
qed

lemma effort_multiplier_cong:
  assumes "\<forall>d\<in>set ds. row1 d = row2 d"
  shows "effort_multiplier row1 ds em = effort_multiplier row2 ds em"
  using assms
  by (induction ds arbitrary: em) (auto split: option.splits sum.splits)

lemma length_cost_drivers: "length cost_drivers = 15"
  by (simp add: cost_drivers_def)

text \<open>
  Leaving an absent driver out of the product gives the same number as counting it as
  the neutral rating 1.
\<close>

lemma absent_driver_is_neutral:
  "prod_list (map rating (filter (\<lambda>d. row d \<noteq> None) ds)) =
   prod_list (map (\<lambda>d. if row d = None then 1 else rating d) ds)"
  by (induction ds) auto


lemma present_drivers_all:
  "\<forall>d\<in>set cost_drivers. row d \<noteq> None \<Longrightarrow> present_drivers row = cost_drivers"
  by (simp add: present_drivers_def)

lemma effort_in_domain:
  fixes a e l b :: real
  assumes "0 \<le> a" and "0 \<le> e"
  shows "- 1 < a * l powr b * e"
proof -
  have "0 \<le> a * l powr b" using assms(1) by simp
  then have "0 \<le> a * l powr b * e" using assms(2) by (rule mult_nonneg_nonneg)
  then show ?thesis by linarith
qed

lemma partial_row_flags:
  "\<not> flag_set partial_row ''mode_organic''"
  "\<not> flag_set partial_row ''mode_semidetached''"
  "\<not> flag_set partial_row ''mode_embedded''"
  by (simp_all add: partial_row_def flag_set_def)

lemma full_row_flags:
  "\<not> flag_set full_row ''mode_organic''"
  "\<not> flag_set full_row ''mode_semidetached''"
  "\<not> flag_set full_row ''mode_embedded''"
  by (simp_all add: full_row_def flag_set_def full_ratings_def)

lemma cocomo_effort_value:
  assumes loc: "row ''loc'' = Some (Num l)"
    and size: "0 \<le> l"
    and drivers: "\<forall>d\<in>set cost_drivers. row d = None \<or> row d = Some (Num (rating d))"
    and coeff: "mode_coefficients row = (a, b)"
    and dom: "- 1 < a * l powr b * prod_list (map rating (present_drivers row))"
  shows "calculate_cocomo_effort row =
           Inr (Num (ln (1 + a * l powr b * prod_list (map rating (present_drivers row)))))"
proof -
  have em: "effort_multiplier row cost_drivers (Num 1) =
              Inr (Num (prod_list (map rating (present_drivers row))))"
    using effort_multiplier_numeric [OF drivers, of 1]
    by (simp add: present_drivers_def)
  show ?thesis
    using dom size
    by (simp add: calculate_cocomo_effort_def coeff em loc)
qed

text \<open>
  C1. On a row that carries a non-negative size \<open>loc\<close> and numeric ratings, the estimator
  returns \<open>ln (1 + a * loc powr b * EM)\<close>, where \<open>(a, b)\<close> is the coefficient pair of the
  row and \<open>EM\<close> is the product of the ratings of exactly the cost drivers whose label is
  on the row: an absent driver contributes no factor, and a row with all fifteen labels
  gets the product of all fifteen. The argument of the logarithm is assumed to lie in
  its domain.
\<close>

theorem cocomo_effort_formula:
  assumes loc: "row ''loc'' = Some (Num l)"
    and size: "0 \<le> l"
    and drivers: "\<forall>d\<in>set cost_drivers. row d = None \<or> row d = Some (Num (rating d))"
    and coeff: "mode_coefficients row = (a, b)"
    and dom: "- 1 < a * l powr b * prod_list (map rating (present_drivers row))"
  shows "calculate_cocomo_effort row =
           Inr (Num (ln (1 + a * l powr b * prod_list (map rating (present_drivers row)))))
       \<and> set (present_drivers row) = {d \<in> set cost_drivers. row d \<noteq> None}
       \<and> ((\<forall>d\<in>set cost_drivers. row d \<noteq> None) \<longrightarrow>
            present_drivers row = cost_drivers \<and> length (present_drivers row) = 15)"
proof -
  have val: "calculate_cocomo_effort row =
           Inr (Num (ln (1 + a * l powr b * prod_list (map rating (present_drivers row)))))"
    using loc size drivers coeff dom by (rule cocomo_effort_value)
  have members: "set (present_drivers row) = {d \<in> set cost_drivers. row d \<noteq> None}"
    by (simp add: present_drivers_def)
  have full: "(\<forall>d\<in>set cost_drivers. row d \<noteq> None) \<longrightarrow>
            present_drivers row = cost_drivers \<and> length (present_drivers row) = 15"
    by (simp add: present_drivers_all length_cost_drivers)
  from val members full show ?thesis by blast
qed

theorem cocomo_effort_formula_witness:
  "calculate_cocomo_effort partial_row = Inr (Num (ln (1 + 2.4 * 10 powr 1.05 * 3)))
   \<and> present_drivers partial_row = [''rely'', ''data'']
   \<and> calculate_cocomo_effort full_row =
       Inr (Num (ln (1 + 3.0 * 10 powr 1.12 * prod_list (map snd full_ratings))))
   \<and> length (present_drivers full_row) = 15"
proof -
  let ?rating = "rating_of [(''rely'', 1.5), (''data'', 2)]"
  have p1: "partial_row ''loc'' = Some (Num 10)" by (simp add: partial_row_def)
  have size: "(0::real) \<le> 10" by simp
  have p3: "\<forall>d\<in>set cost_drivers.
              partial_row d = None \<or> partial_row d = Some (Num (?rating d))"
    by (simp add: partial_row_def cost_drivers_def rating_of_def)
  have p4: "mode_coefficients partial_row = (2.4, 1.05)"
    by (simp add: mode_coefficients_def partial_row_flags) (simp add: partial_row_def)
  have ppres: "present_drivers partial_row = [''rely'', ''data'']"
    by (simp add: present_drivers_def partial_row_def cost_drivers_def)
  have p5: "- 1 < 2.4 * 10 powr 1.05
                   * prod_list (map ?rating (present_drivers partial_row))"
    by (rule effort_in_domain) (simp_all add: ppres rating_of_def)
  from cocomo_effort_formula [OF p1 size p3 p4 p5]
  have "calculate_cocomo_effort partial_row =
          Inr (Num (ln (1 + 2.4 * 10 powr 1.05
                            * prod_list (map ?rating (present_drivers partial_row)))))"
    by blast
  then have partial: "calculate_cocomo_effort partial_row =
                        Inr (Num (ln (1 + 2.4 * 10 powr 1.05 * 3)))"
    by (simp add: ppres rating_of_def)
  let ?full = "rating_of full_ratings"
  have f1: "full_row ''loc'' = Some (Num 10)" by (simp add: full_row_def)
  have f3: "\<forall>d\<in>set cost_drivers. full_row d = None \<or> full_row d = Some (Num (?full d))"
    by (simp add: full_row_def cost_drivers_def rating_of_def full_ratings_def)
  have f4: "mode_coefficients full_row = (3.0, 1.12)"
    by (simp add: mode_coefficients_def full_row_flags) (simp add: full_row_def)
  have all: "\<forall>d\<in>set cost_drivers. full_row d \<noteq> None"
    by (simp add: full_row_def cost_drivers_def full_ratings_def)
  have fpres: "present_drivers full_row = cost_drivers"
    using all by (rule present_drivers_all)
  have rs: "map ?full cost_drivers = map snd full_ratings"
    by (simp add: cost_drivers_def full_ratings_def rating_of_def)
  have f5: "- 1 < 3.0 * 10 powr 1.12 * prod_list (map ?full (present_drivers full_row))"
    unfolding fpres rs by (rule effort_in_domain) (simp_all add: full_ratings_def)
  from cocomo_effort_formula [OF f1 size f3 f4 f5] all
  have "calculate_cocomo_effort full_row =
          Inr (Num (ln (1 + 3.0 * 10 powr 1.12
                            * prod_list (map ?full (present_drivers full_row)))))"
    and fifteen: "length (present_drivers full_row) = 15"
    by blast+
  then have full: "calculate_cocomo_effort full_row =
                     Inr (Num (ln (1 + 3.0 * 10 powr 1.12 * prod_list (map snd full_ratings))))"
    by (simp only: fpres rs)
  from partial ppres full fifteen show ?thesis by blast
qed

lemma mode_coefficients_by_text:
  assumes "\<not> flag_set row ''mode_organic''"
    and "\<not> flag_set row ''mode_semidetached''"
    and "\<not> flag_set row ''mode_embedded''"
  shows "(row ''dev_mode'' = Some (Str ''organic'') \<longrightarrow> mode_coefficients row = (2.4, 1.05))
       \<and> (row ''dev_mode'' = Some (Str ''semidetached'') \<longrightarrow>
            mode_coefficients row = (3.0, 1.12))
       \<and> (row ''dev_mode'' = Some (Str ''embedded'') \<longrightarrow> mode_coefficients row = (3.6, 1.20))
       \<and> (row ''dev_mode'' \<notin> {Some (Str ''organic''), Some (Str ''semidetached''),
                                Some (Str ''embedded'')} \<longrightarrow>
            mode_coefficients row = (3.6, 1.20))"
proof -
  have unknown: "mode_coefficients row = (3.6, 1.20)"
    if "row ''dev_mode'' \<notin> {Some (Str ''organic''), Some (Str ''semidetached''),
                              Some (Str ''embedded'')}"
  proof (cases "row ''dev_mode''")
    case None
    then show ?thesis using assms by (simp add: mode_coefficients_def)
  next
    case (Some m)
    with that have "m \<noteq> Str ''organic''" "m \<noteq> Str ''semidetached''" by auto
    then have "\<not> eq_str m ''organic''" "\<not> eq_str m ''semidetached''"
      by (cases m; simp)+
    then show ?thesis using assms Some by (simp add: mode_coefficients_def)
  qed
  show ?thesis
    using assms unknown by (simp add: mode_coefficients_def)
qed

text \<open>
  C2. The coefficient pair follows the development mode of the row. For a row whose
  one-hot indicators single out one category, and for a row without a firing indicator
  (the rows of the loaded table have no indicator columns at all) whose \<open>dev_mode\<close> text
  names the category: organic gives (2.4, 1.05), semidetached (3.0, 1.12), embedded
  (3.6, 1.20). Without a firing indicator, any other \<open>dev_mode\<close> cell or no \<open>dev_mode\<close>
  label gives the embedded pair.
\<close>

theorem mode_coefficients_table:
  "(flag_set row ''mode_organic'' \<and> \<not> flag_set row ''mode_semidetached''
      \<and> \<not> flag_set row ''mode_embedded'' \<longrightarrow> mode_coefficients row = (2.4, 1.05))
   \<and> (\<not> flag_set row ''mode_organic'' \<and> flag_set row ''mode_semidetached''
      \<and> \<not> flag_set row ''mode_embedded'' \<longrightarrow> mode_coefficients row = (3.0, 1.12))
   \<and> (\<not> flag_set row ''mode_organic'' \<and> \<not> flag_set row ''mode_semidetached''
      \<and> flag_set row ''mode_embedded'' \<longrightarrow> mode_coefficients row = (3.6, 1.20))
   \<and> (\<not> flag_set row ''mode_organic'' \<and> \<not> flag_set row ''mode_semidetached''
      \<and> \<not> flag_set row ''mode_embedded'' \<longrightarrow>
        (row ''dev_mode'' = Some (Str ''organic'') \<longrightarrow> mode_coefficients row = (2.4, 1.05))
      \<and> (row ''dev_mode'' = Some (Str ''semidetached'') \<longrightarrow>
            mode_coefficients row = (3.0, 1.12))
      \<and> (row ''dev_mode'' = Some (Str ''embedded'') \<longrightarrow> mode_coefficients row = (3.6, 1.20))
      \<and> (row ''dev_mode'' \<notin> {Some (Str ''organic''), Some (Str ''semidetached''),
                               Some (Str ''embedded'')} \<longrightarrow>
            mode_coefficients row = (3.6, 1.20)))"
proof -
  have one: "flag_set row ''mode_organic'' \<longrightarrow> mode_coefficients row = (2.4, 1.05)"
    by (simp add: mode_coefficients_def)
  have two: "\<not> flag_set row ''mode_organic'' \<and> flag_set row ''mode_semidetached''
               \<longrightarrow> mode_coefficients row = (3.0, 1.12)"
    by (simp add: mode_coefficients_def)
  have three: "\<not> flag_set row ''mode_organic'' \<and> \<not> flag_set row ''mode_semidetached''
               \<and> flag_set row ''mode_embedded'' \<longrightarrow> mode_coefficients row = (3.6, 1.20)"
    by (simp add: mode_coefficients_def)
  from one two three mode_coefficients_by_text [of row] show ?thesis by blast
qed

theorem mode_coefficients_table_witness:
  "mode_coefficients partial_row = (2.4, 1.05)
   \<and> mode_coefficients full_row = (3.0, 1.12)
   \<and> mode_coefficients [''dev_mode'' \<mapsto> Str ''embedded''] = (3.6, 1.20)
   \<and> mode_coefficients [''dev_mode'' \<mapsto> Str ''spiral''] = (3.6, 1.20)
   \<and> mode_coefficients [''dev_mode'' \<mapsto> NaN] = (3.6, 1.20)
   \<and> mode_coefficients Map.empty = (3.6, 1.20)
   \<and> mode_coefficients [''mode_embedded'' \<mapsto> Bool False, ''mode_organic'' \<mapsto> Bool False,
                          ''mode_semidetached'' \<mapsto> Bool True] = (3.0, 1.12)"
proof -
  have organic: "partial_row ''dev_mode'' = Some (Str ''organic'')"
    by (simp add: partial_row_def)
  have semidetached: "full_row ''dev_mode'' = Some (Str ''semidetached'')"
    by (simp add: full_row_def)
  have no_flags: "\<not> flag_set [''dev_mode'' \<mapsto> v] k" "\<not> flag_set Map.empty k"
    if "k \<noteq> ''dev_mode''" for k v
    using that by (simp_all add: flag_set_def)
  have c1: "mode_coefficients partial_row = (2.4, 1.05)"
    using mode_coefficients_table [of partial_row] partial_row_flags organic by blast
  have c2: "mode_coefficients full_row = (3.0, 1.12)"
    using mode_coefficients_table [of full_row] full_row_flags semidetached by blast
  have c3: "mode_coefficients [''dev_mode'' \<mapsto> Str ''embedded''] = (3.6, 1.20)"
    using mode_coefficients_table [of "[''dev_mode'' \<mapsto> Str ''embedded'']"]
    by (simp add: no_flags)
  have c4: "mode_coefficients [''dev_mode'' \<mapsto> Str ''spiral''] = (3.6, 1.20)"
    using mode_coefficients_table [of "[''dev_mode'' \<mapsto> Str ''spiral'']"]
    by (simp add: no_flags)
  have c5: "mode_coefficients [''dev_mode'' \<mapsto> NaN] = (3.6, 1.20)"
    using mode_coefficients_table [of "[''dev_mode'' \<mapsto> NaN]"]
    by (simp add: no_flags)
  have c6: "mode_coefficients Map.empty = (3.6, 1.20)"
    using mode_coefficients_table [of Map.empty]
    by (simp add: no_flags)
  let ?encoded = "[''mode_embedded'' \<mapsto> Bool False, ''mode_organic'' \<mapsto> Bool False,
                   ''mode_semidetached'' \<mapsto> Bool True]"
  have flags: "\<not> flag_set ?encoded ''mode_organic''" "flag_set ?encoded ''mode_semidetached''"
    "\<not> flag_set ?encoded ''mode_embedded''"
    by (simp_all add: flag_set_def)
  have c7: "mode_coefficients ?encoded = (3.0, 1.12)"
    using mode_coefficients_table [of ?encoded] flags by blast
  from c1 c2 c3 c4 c5 c6 c7 show ?thesis by blast
qed

text \<open>
  C9. The estimator is a function of the row's mode, size and cost-driver cells only:
  two rows that agree on those labels get the same result (value or error), whatever
  else the rows carry.
\<close>

theorem calculate_cocomo_effort_deterministic:
  assumes "\<forall>k\<in>set estimator_inputs. row1 k = row2 k"
  shows "calculate_cocomo_effort row1 = calculate_cocomo_effort row2"
proof -
  have modes: "row1 ''mode_organic'' = row2 ''mode_organic''"
    "row1 ''mode_semidetached'' = row2 ''mode_semidetached''"
    "row1 ''mode_embedded'' = row2 ''mode_embedded''"
    "row1 ''dev_mode'' = row2 ''dev_mode''"
    and loc: "row1 ''loc'' = row2 ''loc''"
    using assms by (simp_all add: estimator_inputs_def)
  have "\<forall>d\<in>set cost_drivers. row1 d = row2 d"
    using assms by (simp add: estimator_inputs_def)
  then have em: "effort_multiplier row1 cost_drivers (Num 1) =
                 effort_multiplier row2 cost_drivers (Num 1)"
    by (rule effort_multiplier_cong)
  have coeff: "mode_coefficients row1 = mode_coefficients row2"
    by (simp add: mode_coefficients_def flag_set_def modes)
  show ?thesis
    unfolding calculate_cocomo_effort_def coeff em loc by (rule refl)
qed

theorem calculate_cocomo_effort_deterministic_witness:
  "calculate_cocomo_effort (partial_row(''actual'' \<mapsto> Num 99, ''project'' \<mapsto> Str ''p7''))
   = calculate_cocomo_effort partial_row"
proof -
  have "\<forall>k\<in>set estimator_inputs.
          (partial_row(''actual'' \<mapsto> Num 99, ''project'' \<mapsto> Str ''p7'')) k = partial_row k"
    by (simp add: estimator_inputs_def cost_drivers_def)
  then show ?thesis by (rule calculate_cocomo_effort_deterministic)
qed

section \<open>Properties of the evaluator\<close>

lemma sum_list_shifted_squares:
  fixes xs :: "real list"
  shows "sum_list (map (\<lambda>a. (a - m)\<^sup>2) xs) =
         sum_list (map (\<lambda>a. a\<^sup>2) xs) - 2 * m * sum_list xs + real (length xs) * m\<^sup>2"
  by (induction xs) (simp_all add: power2_eq_square algebra_simps)

lemma square_mean_le_mean_square:
  assumes "xs \<noteq> []"
  shows "(mean xs)\<^sup>2 \<le> mean (map (\<lambda>a. a\<^sup>2) xs)"
proof -
  define n where "n = real (length xs)"
  define S where "S = sum_list xs"
  define Q where "Q = sum_list (map (\<lambda>a. a\<^sup>2) xs)"
  have n: "0 < n" using assms by (simp add: n_def)
  have "0 \<le> sum_list (map (\<lambda>a. (a - S / n)\<^sup>2) xs)"
    by (rule sum_list_nonneg) auto
  also have "\<dots> = Q - 2 * (S / n) * S + n * (S / n)\<^sup>2"
    by (simp add: sum_list_shifted_squares Q_def S_def n_def)
  also have "\<dots> = Q - S\<^sup>2 / n"
    using n by (simp add: power2_eq_square field_simps)
  finally have "S\<^sup>2 / n \<le> Q" by simp
  then have "S\<^sup>2 / n / n \<le> Q / n"
    by (rule divide_right_mono) (simp add: less_imp_le n)
  moreover have "(mean xs)\<^sup>2 = S\<^sup>2 / n / n"
    by (simp add: mean_def S_def n_def power2_eq_square)
  moreover have "mean (map (\<lambda>a. a\<^sup>2) xs) = Q / n"
    by (simp add: mean_def Q_def n_def)
  ultimately show ?thesis by simp
qed

lemma mean_nonneg:
  assumes "\<And>x. x \<in> set xs \<Longrightarrow> 0 \<le> x"
  shows "0 \<le> mean xs"
  unfolding mean_def using assms by (intro divide_nonneg_nonneg sum_list_nonneg) simp_all

lemma squared_deviations:
  "map (\<lambda>a. a\<^sup>2) (map2 (\<lambda>t p. \<bar>t - p\<bar>) ts ps) = map2 (\<lambda>t p. (t - p)\<^sup>2) ts (ps :: real list)"
  by (simp add: case_prod_unfold)

lemma mae_nonneg: "0 \<le> mean_absolute_error ts ps"
  unfolding mean_absolute_error_def by (rule mean_nonneg) auto

lemma mse_nonneg: "0 \<le> mean_squared_error ts ps"
  unfolding mean_squared_error_def by (rule mean_nonneg) auto

lemma mae_le_rmse:
  assumes "length ts = length ps" and "ts \<noteq> []"
  shows "mean_absolute_error ts ps \<le> sqrt (mean_squared_error ts ps)"
proof -
  have "map2 (\<lambda>t p. \<bar>t - p\<bar>) ts ps \<noteq> []" using assms by (cases ts; cases ps) auto
  from square_mean_le_mean_square [OF this]
  have "(mean_absolute_error ts ps)\<^sup>2 \<le> mean_squared_error ts ps"
    unfolding mean_absolute_error_def mean_squared_error_def squared_deviations .
  then show ?thesis by (rule real_le_rsqrt)
qed

lemma total_sum_of_squares_zero_iff:
  "total_sum_of_squares ys = 0 \<longleftrightarrow> (\<forall>a\<in>set ys. \<forall>b\<in>set ys. a = b)"
proof
  assume "total_sum_of_squares ys = 0"
  then have "\<forall>x\<in>set (map (\<lambda>t. (t - mean ys)\<^sup>2) ys). x = 0"
    unfolding total_sum_of_squares_def
    by (subst (asm) sum_list_nonneg_eq_0_iff) auto
  then have "\<forall>a\<in>set ys. a = mean ys" by auto
  then show "\<forall>a\<in>set ys. \<forall>b\<in>set ys. a = b" by metis
next
  assume same: "\<forall>a\<in>set ys. \<forall>b\<in>set ys. a = b"
  show "total_sum_of_squares ys = 0"
  proof (cases ys)
    case Nil
    then show ?thesis by (simp add: total_sum_of_squares_def)
  next
    case (Cons c cs)
    then have all: "\<forall>a\<in>set ys. a = c" using same by auto
    then have "ys = replicate (length ys) c"
      by (simp add: replicate_length_same)
    then have "sum_list ys = real (length ys) * c"
      by (metis sum_list_replicate)
    then have "mean ys = c" using Cons by (simp add: mean_def)
    moreover have "sum_list (map (\<lambda>t. (t - c)\<^sup>2) ys) = 0"
      using all by (induction ys) simp_all
    ultimately show ?thesis by (simp only: total_sum_of_squares_def)
  qed
qed

lemma residuals_of_perfect_prediction:
  "sum_list (map2 (\<lambda>t p. (t - p)\<^sup>2) ys ys) = (0::real)"
  by (induction ys) simp_all

lemma total_sum_of_squares_short: "length ys < 2 \<Longrightarrow> total_sum_of_squares ys = 0"
proof -
  assume "length ys < 2"
  then have "\<forall>a\<in>set ys. \<forall>b\<in>set ys. a = b"
    by (cases ys; cases "tl ys") auto
  then show ?thesis by (simp add: total_sum_of_squares_zero_iff)
qed



text \<open>
  C6, as amended. For every pair of equal-length true/predicted vectors with at least one
  row the evaluator returns metrics: MAE is the mean absolute deviation, RMSE the square
  root of the mean squared deviation, and \<open>R\<^sup>2\<close> is 1 minus the sum of squared residuals
  over the total sum of squares around the true mean whenever that total is not zero.
  MAE and RMSE are non-negative and, as exact values of these formulas, RMSE is at least
  MAE (the rounding of the library's floating-point sums is outside this theory and can
  offset the two by a unit in the last place). With at least two rows, \<open>R\<^sup>2\<close> is exactly
  1 when the predicted vector equals the true vector.
\<close>

theorem evaluate_model_metrics:
  assumes "length y_true = length y_pred" and "y_true \<noteq> []"
  shows "\<exists>m. evaluate_model y_true y_pred = Inr m
           \<and> mae m = sum_list (map2 (\<lambda>t p. \<bar>t - p\<bar>) y_true y_pred) / real (length y_true)
           \<and> rmse m = sqrt (sum_list (map2 (\<lambda>t p. (t - p)\<^sup>2) y_true y_pred)
                             / real (length y_true))
           \<and> (sum_list (map (\<lambda>t. (t - sum_list y_true / real (length y_true))\<^sup>2) y_true) \<noteq> 0
                \<longrightarrow> r2 m = Some (1 - sum_list (map2 (\<lambda>t p. (t - p)\<^sup>2) y_true y_pred)
                    / sum_list (map (\<lambda>t. (t - sum_list y_true / real (length y_true))\<^sup>2)
                                  y_true)))
           \<and> 0 \<le> mae m \<and> 0 \<le> rmse m \<and> mae m \<le> rmse m
           \<and> (y_pred = y_true \<and> 2 \<le> length y_true \<longrightarrow> r2 m = Some 1)"
proof -
  let ?m = "\<lparr>mae = mean_absolute_error y_true y_pred,
             rmse = sqrt (mean_squared_error y_true y_pred),
             r2 = r2_score y_true y_pred\<rparr>"
  have ret: "evaluate_model y_true y_pred = Inr ?m"
    using assms by (simp add: evaluate_model_def)
  have f1: "mae ?m = sum_list (map2 (\<lambda>t p. \<bar>t - p\<bar>) y_true y_pred) / real (length y_true)"
    using assms(1) by (simp add: mean_absolute_error_def mean_def)
  have f2: "rmse ?m = sqrt (sum_list (map2 (\<lambda>t p. (t - p)\<^sup>2) y_true y_pred)
                             / real (length y_true))"
    using assms(1) by (simp add: mean_squared_error_def mean_def)
  have tss: "sum_list (map (\<lambda>t. (t - sum_list y_true / real (length y_true))\<^sup>2) y_true) =
               total_sum_of_squares y_true"
    by (simp add: total_sum_of_squares_def mean_def)
  have f3: "r2 ?m = Some (1 - sum_list (map2 (\<lambda>t p. (t - p)\<^sup>2) y_true y_pred)
                    / total_sum_of_squares y_true)"
    if nz: "total_sum_of_squares y_true \<noteq> 0"
  proof -
    from nz total_sum_of_squares_short [of y_true] have "\<not> length y_true < 2" by blast
    with nz show ?thesis by (simp add: r2_score_def residual_sum_of_squares_def)
  qed
  have a: "0 \<le> mae ?m" by (simp add: mae_nonneg)
  have b: "0 \<le> rmse ?m" by (simp add: mse_nonneg)
  have c: "mae ?m \<le> rmse ?m" using mae_le_rmse [OF assms] by simp
  have d: "r2 ?m = Some 1" if "y_pred = y_true" and "2 \<le> length y_true"
  proof -
    from that(1) have "residual_sum_of_squares y_true y_pred = 0"
      by (simp add: residual_sum_of_squares_def residuals_of_perfect_prediction)
    with that(2) show ?thesis by (simp add: r2_score_def)
  qed
  from ret f1 f2 f3 a b c d show ?thesis unfolding tss by blast
qed

theorem evaluate_model_metrics_witness:
  "(\<exists>m. evaluate_model [1, 2, 4] [1, 3, 2] = Inr m
        \<and> mae m = 1 \<and> rmse m = sqrt (5 / 3) \<and> r2 m = Some (- (1 / 14)) \<and> mae m \<le> rmse m)
   \<and> (\<exists>m. evaluate_model [5, 5] [5, 5] = Inr m \<and> r2 m = Some 1)"
proof -
  have len: "length [1, 2, 4 :: real] = length [1, 3, 2 :: real]"
    "length [5, 5 :: real] = length [5, 5 :: real]"
    and ne: "[1, 2, 4 :: real] \<noteq> []" "[5, 5 :: real] \<noteq> []"
    by simp_all
  from evaluate_model_metrics [OF len(1) ne(1)] obtain m where
    ret: "evaluate_model [1, 2, 4] [1, 3, 2] = Inr m"
    and m1: "mae m = sum_list (map2 (\<lambda>t p. \<bar>t - p\<bar>) [1, 2, 4] [1, 3, 2])
                       / real (length [1, 2, 4 :: real])"
    and m2: "rmse m = sqrt (sum_list (map2 (\<lambda>t p. (t - p)\<^sup>2) [1, 2, 4] [1, 3, 2])
                             / real (length [1, 2, 4 :: real]))"
    and m3: "sum_list (map (\<lambda>t. (t - sum_list [1, 2, 4] / real (length [1, 2, 4 :: real]))\<^sup>2)
                        [1, 2, 4]) \<noteq> 0
                \<longrightarrow> r2 m = Some (1 - sum_list (map2 (\<lambda>t p. (t - p)\<^sup>2) [1, 2, 4] [1, 3, 2])
                    / sum_list (map (\<lambda>t. (t - sum_list [1, 2, 4]
                                               / real (length [1, 2, 4 :: real]))\<^sup>2)
                                  [1, 2, 4]))"
    and m4: "mae m \<le> rmse m"
    by blast
  from m1 have v1: "mae m = 1" by simp
  from m2 have v2: "rmse m = sqrt (5 / 3)" by simp
  from m3 have v3: "r2 m = Some (- (1 / 14))" by (simp add: power2_eq_square)
  from ret v1 v2 v3 m4 have first: "\<exists>m. evaluate_model [1, 2, 4] [1, 3, 2] = Inr m
        \<and> mae m = 1 \<and> rmse m = sqrt (5 / 3) \<and> r2 m = Some (- (1 / 14)) \<and> mae m \<le> rmse m"
    by blast
  from evaluate_model_metrics [OF len(2) ne(2)]
  have second: "\<exists>m. evaluate_model [5, 5] [5, 5] = Inr m \<and> r2 m = Some 1"
    by auto
  from first second show ?thesis by blast
qed

text \<open>
  C6 as stated fails: on a single test row predicted exactly, \<open>R\<^sup>2\<close> is \<^verbatim>\<open>nan\<close>, not 1;
  and an empty pair has no metrics at all.
\<close>

theorem r2_of_perfect_prediction_counterexample:
  "evaluate_model [5] [5] = Inr \<lparr>mae = 0, rmse = 0, r2 = None\<rparr>
   \<and> evaluate_model [] [] = Inl ValueError"
  by (simp add: evaluate_model_def mean_absolute_error_def mean_squared_error_def r2_score_def
      mean_def)




section \<open>Properties of the reporter\<close>

lemma min_by_key_mem: "min_by_key key best xs \<in> set (best # xs)"
  by (induction xs arbitrary: best) auto

lemma min_by_key_le_best: "key (min_by_key key best xs) \<le> key best"
proof (induction xs arbitrary: best)
  case Nil
  then show ?case by simp
next
  case (Cons x xs)
  have "key (min_by_key key (if key x < key best then x else best) xs)
          \<le> key (if key x < key best then x else best)"
    by (rule Cons.IH)
  then show ?case by (auto split: if_splits)
qed

lemma min_by_key_least: "x \<in> set (best # xs) \<Longrightarrow> key (min_by_key key best xs) \<le> key x"
proof (induction xs arbitrary: best)
  case Nil
  then show ?case by simp
next
  case (Cons y ys)
  let ?b = "if key y < key best then y else best"
  have step: "key (min_by_key key ?b ys) \<le> key ?b" by (rule min_by_key_le_best)
  from Cons.prems consider "x = best" | "x = y" | "x \<in> set ys" by auto
  then show ?case
  proof cases
    case 1
    then show ?thesis using step by (auto split: if_splits)
  next
    case 2
    then show ?thesis using step by (auto split: if_splits)
  next
    case 3
    then have "x \<in> set (?b # ys)" by simp
    then have "key (min_by_key key ?b ys) \<le> key x" by (rule Cons.IH)
    then show ?thesis by simp
  qed
qed

lemma min_by_key_keeps_first:
  "\<forall>x\<in>set xs. key best \<le> key x \<Longrightarrow> min_by_key key best xs = best"
  by (induction xs) auto

lemma evaluate_all_entries:
  assumes "evaluate_all targets cocomo_pred lr_pred dt_pred rf_pred = Inr results"
  shows "\<exists>m1 m2 m3 m4.
           results = [(''COCOMO I'', m1), (''Linear Regression'', m2),
                      (''Decision Tree'', m3), (''Random Forest'', m4)]
         \<and> evaluate_model targets cocomo_pred = Inr m1
         \<and> evaluate_model targets lr_pred = Inr m2
         \<and> evaluate_model targets dt_pred = Inr m3
         \<and> evaluate_model targets rf_pred = Inr m4"
  using assms by (auto simp: evaluate_all_def and_then_def split: sum.splits)

lemma sample_high_1: "evaluate_model [1, 3] [1, 5] = Inr \<lparr>mae = 1, rmse = sqrt 2, r2 = Some (- 1)\<rparr>"
  by (simp add: evaluate_model_def mean_absolute_error_def mean_squared_error_def r2_score_def
      residual_sum_of_squares_def total_sum_of_squares_def mean_def)

lemma sample_low: "evaluate_model [1, 3] [1, 4] = Inr \<lparr>mae = 1 / 2, rmse = sqrt (1 / 2), r2 = Some (1 / 2)\<rparr>"
  by (simp add: evaluate_model_def mean_absolute_error_def mean_squared_error_def r2_score_def
      residual_sum_of_squares_def total_sum_of_squares_def mean_def)

lemma sample_high_2: "evaluate_model [1, 3] [3, 3] = Inr \<lparr>mae = 1, rmse = sqrt 2, r2 = Some (- 1)\<rparr>"
  by (simp add: evaluate_model_def mean_absolute_error_def mean_squared_error_def r2_score_def
      residual_sum_of_squares_def total_sum_of_squares_def mean_def)

text \<open>
  C5. With the four evaluation results of lines 171 to 175, the reporter returns a best
  model whose RMSE is the minimum of the four; it is the parametric formula exactly when
  the formula's RMSE is minimal (ties included), and then the disk is unchanged;
  otherwise the disk changes in exactly two files, the winning learned estimator under
  \<^verbatim>\<open>trained_model.pkl\<close> and the scaler under \<^verbatim>\<open>scaler.pkl\<close>.
\<close>

theorem save_best_min_rmse:
  assumes "evaluate_all targets cocomo_pred lr_pred dt_pred rf_pred = Inr results"
  shows "\<exists>best m disk'.
           save_best results lr_model dt_model rf_model scaler disk = Inr (best, disk')
         \<and> map (\<lambda>(n, m'). Inr m') results =
             map (evaluate_model targets) [cocomo_pred, lr_pred, dt_pred, rf_pred]
         \<and> map_of results best = Some m
         \<and> (\<forall>(n, m')\<in>set results. rmse m \<le> rmse m')
         \<and> (best = ''COCOMO I'' \<longleftrightarrow>
              (\<forall>mc. map_of results ''COCOMO I'' = Some mc \<longrightarrow>
                    (\<forall>(n, m')\<in>set results. rmse mc \<le> rmse m')))
         \<and> (if best = ''COCOMO I'' then disk' = disk
            else \<exists>w. (best, w) \<in> {(''Linear Regression'', lr_model),
                                   (''Decision Tree'', dt_model),
                                   (''Random Forest'', rf_model)}
                    \<and> disk' = disk(''trained_model.pkl'' \<mapsto> Model w,
                                    ''scaler.pkl'' \<mapsto> ScalerObj scaler))"
proof -
  from evaluate_all_entries [OF assms] obtain m1 m2 m3 m4 where
    res: "results = [(''COCOMO I'', m1), (''Linear Regression'', m2),
                     (''Decision Tree'', m3), (''Random Forest'', m4)]"
    and ev: "evaluate_model targets cocomo_pred = Inr m1"
      "evaluate_model targets lr_pred = Inr m2"
      "evaluate_model targets dt_pred = Inr m3"
      "evaluate_model targets rf_pred = Inr m4"
    by blast
  let ?key = "\<lambda>x :: string \<times> metrics. rmse (snd x)"
  let ?rest = "[(''Linear Regression'', m2), (''Decision Tree'', m3), (''Random Forest'', m4)]"
  define w where "w = min_by_key ?key (''COCOMO I'', m1) ?rest"
  have bm: "best_model results = Inr (fst w)"
    by (simp add: best_model_def res w_def)
  have mem: "w \<in> set results"
    unfolding res w_def by (rule min_by_key_mem)
  have least: "\<forall>x\<in>set results. rmse (snd w) \<le> rmse (snd x)"
    unfolding res w_def using min_by_key_least [of _ "(''COCOMO I'', m1)" ?rest ?key] by blast
  have lookup: "map_of results (fst w) = Some (snd w)"
    using mem by (auto simp: res)
  have first: "fst w = ''COCOMO I'' \<longleftrightarrow> (\<forall>x\<in>set results. rmse m1 \<le> rmse (snd x))"
  proof
    assume "fst w = ''COCOMO I''"
    then have "w = (''COCOMO I'', m1)" using mem by (auto simp: res)
    then show "\<forall>x\<in>set results. rmse m1 \<le> rmse (snd x)" using least by simp
  next
    assume "\<forall>x\<in>set results. rmse m1 \<le> rmse (snd x)"
    then have "\<forall>x\<in>set ?rest. ?key (''COCOMO I'', m1) \<le> ?key x" by (simp add: res)
    then have "w = (''COCOMO I'', m1)" unfolding w_def by (rule min_by_key_keeps_first)
    then show "fst w = ''COCOMO I''" by simp
  qed
  show ?thesis
  proof (cases "fst w = ''COCOMO I''")
    case True
    then have "save_best results lr_model dt_model rf_model scaler disk = Inr (fst w, disk)"
      by (simp add: save_best_def and_then_def bm)
    with True lookup least first ev show ?thesis
      by (intro exI [of _ "fst w"] exI [of _ "snd w"] exI [of _ disk]) (auto simp: res)
  next
    case False
    then obtain obj where
      obj: "(fst w, obj) \<in> {(''Linear Regression'', lr_model), (''Decision Tree'', dt_model),
                             (''Random Forest'', rf_model)}"
      using mem by (auto simp: res)
    then have "map_of (model_objects lr_model dt_model rf_model) (fst w)
                 = Some (Model obj :: ('a, 'b) pyobj)"
      by (auto simp: model_objects_def)
    then have "save_best results lr_model dt_model rf_model scaler disk =
                 Inr (fst w, disk(''trained_model.pkl'' \<mapsto> Model obj,
                                   ''scaler.pkl'' \<mapsto> ScalerObj scaler))"
      using False by (simp add: save_best_def and_then_def bm)
    with False lookup least first ev obj show ?thesis
      by (intro exI [of _ "fst w"] exI [of _ "snd w"]
            exI [of _ "disk(''trained_model.pkl'' \<mapsto> Model obj,
                            ''scaler.pkl'' \<mapsto> ScalerObj scaler)"]) (auto simp: res)
  qed
qed

theorem save_best_min_rmse_witness:
  "save_best [(''COCOMO I'', \<lparr>mae = 1, rmse = sqrt 2, r2 = Some (- 1)\<rparr>),
              (''Linear Regression'', \<lparr>mae = 1 / 2, rmse = sqrt (1 / 2), r2 = Some (1 / 2)\<rparr>),
              (''Decision Tree'', \<lparr>mae = 1, rmse = sqrt 2, r2 = Some (- 1)\<rparr>),
              (''Random Forest'', \<lparr>mae = 1, rmse = sqrt 2, r2 = Some (- 1)\<rparr>)]
             (1::nat) 2 3 () Map.empty
   = Inr (''Linear Regression'',
          [''trained_model.pkl'' \<mapsto> Model 1, ''scaler.pkl'' \<mapsto> ScalerObj ()])
   \<and> save_best [(''COCOMO I'', \<lparr>mae = 1 / 2, rmse = sqrt (1 / 2), r2 = Some (1 / 2)\<rparr>),
              (''Linear Regression'', \<lparr>mae = 1 / 2, rmse = sqrt (1 / 2), r2 = Some (1 / 2)\<rparr>),
              (''Decision Tree'', \<lparr>mae = 1, rmse = sqrt 2, r2 = Some (- 1)\<rparr>),
              (''Random Forest'', \<lparr>mae = 1, rmse = sqrt 2, r2 = Some (- 1)\<rparr>)]
             (1::nat) 2 3 () Map.empty
   = Inr (''COCOMO I'', Map.empty)"
proof -
  let ?high = "\<lparr>mae = 1, rmse = sqrt 2, r2 = Some (- 1)\<rparr>"
  let ?low = "\<lparr>mae = 1 / 2, rmse = sqrt (1 / 2), r2 = Some (1 / 2)\<rparr>"
  let ?learned = "[(''COCOMO I'', ?high), (''Linear Regression'', ?low),
                   (''Decision Tree'', ?high), (''Random Forest'', ?high)]"
  let ?formula = "[(''COCOMO I'', ?low), (''Linear Regression'', ?low),
                   (''Decision Tree'', ?high), (''Random Forest'', ?high)]"
  have lt: "sqrt (1 / 2) < sqrt 2" by simp
  have run1: "evaluate_all [1, 3] [1, 5] [1, 4] [3, 3] [3, 3] = Inr ?learned"
    by (simp add: evaluate_all_def and_then_def sample_high_1 sample_low sample_high_2)
  from save_best_min_rmse [OF run1, of 1 2 3 "()" Map.empty]
  obtain best m disk' where
    saved: "save_best ?learned (1::nat) 2 3 () Map.empty = Inr (best, disk')"
    and entry: "map_of ?learned best = Some m"
    and least: "\<forall>(n, m')\<in>set ?learned. rmse m \<le> rmse m'"
    and files: "if best = ''COCOMO I'' then disk' = Map.empty
            else \<exists>w. (best, w) \<in> {(''Linear Regression'', 1), (''Decision Tree'', 2),
                                   (''Random Forest'', 3)}
                    \<and> disk' = [''trained_model.pkl'' \<mapsto> Model w,
                               ''scaler.pkl'' \<mapsto> ScalerObj ()]"
    by blast
  from least have "rmse m \<le> sqrt (1 / 2)" by simp
  with lt have small: "rmse m < sqrt 2" by linarith
  have lr: "best = ''Linear Regression''"
  proof (rule ccontr)
    assume "best \<noteq> ''Linear Regression''"
    with entry have "rmse m = sqrt 2" by (auto split: if_splits)
    with small show False by simp
  qed
  with files have "disk' = [''trained_model.pkl'' \<mapsto> Model 1, ''scaler.pkl'' \<mapsto> ScalerObj ()]"
    by auto
  with saved lr have one: "save_best ?learned (1::nat) 2 3 () Map.empty =
      Inr (''Linear Regression'',
           [''trained_model.pkl'' \<mapsto> Model 1, ''scaler.pkl'' \<mapsto> ScalerObj ()])"
    by simp
  have run2: "evaluate_all [1, 3] [1, 4] [1, 4] [3, 3] [3, 3] = Inr ?formula"
    by (simp add: evaluate_all_def and_then_def sample_low sample_high_2)
  from save_best_min_rmse [OF run2, of 1 2 3 "()" Map.empty]
  obtain best2 disk2 where
    saved2: "save_best ?formula (1::nat) 2 3 () Map.empty = Inr (best2, disk2)"
    and wins: "best2 = ''COCOMO I'' \<longleftrightarrow>
              (\<forall>mc. map_of ?formula ''COCOMO I'' = Some mc \<longrightarrow>
                    (\<forall>(n, m')\<in>set ?formula. rmse mc \<le> rmse m'))"
    and files2: "if best2 = ''COCOMO I'' then disk2 = Map.empty
            else \<exists>w. (best2, w) \<in> {(''Linear Regression'', 1), (''Decision Tree'', 2),
                                    (''Random Forest'', 3)}
                    \<and> disk2 = [''trained_model.pkl'' \<mapsto> Model w,
                               ''scaler.pkl'' \<mapsto> ScalerObj ()]"
    by blast
  from wins have "best2 = ''COCOMO I''" by simp
  with files2 saved2 have two: "save_best ?formula (1::nat) 2 3 () Map.empty =
      Inr (''COCOMO I'', Map.empty)"
    by simp
  from one two show ?thesis by blast
qed

section \<open>Properties of the store and the feature builder\<close>

lemma select_columns_Inr:
  "select_columns df ls = Inr r \<Longrightarrow> list_all2 (\<lambda>c (l, col). l = c \<and> map_of df c = Some col) ls r"
  by (induction ls arbitrary: r) (auto split: option.splits sum.splits)

lemma select_columns_labels:
  "select_columns df ls = Inr r \<Longrightarrow> map fst r = ls"
  by (induction ls arbitrary: r) (auto split: option.splits sum.splits)









lemma map_of_frame_columns:
  "map_of (frame_columns st df) c = map_option (buffers st) (map_of df c)"
  by (induction df) (auto simp: frame_columns_def)

lemma alloc_all_columns:
  assumes "alloc_all cols st = (f, st')"
  shows "frame_columns st' f = cols"
proof -
  from assms have f: "f = zip (map fst cols) [next_free st ..< next_free st + length cols]"
    and b: "buffers st' = (\<lambda>a. if next_free st \<le> a \<and> a < next_free st + length cols
                              then snd (cols ! (a - next_free st)) else buffers st a)"
    by (auto simp: alloc_all_def Let_def)
  show ?thesis
    unfolding frame_columns_def f b
    by (rule nth_equalityI) (simp_all add: case_prod_unfold)
qed

lemma alloc_all_old:
  assumes "alloc_all cols st = (f, st')" and "a < next_free st"
  shows "buffers st' a = buffers st a"
  using assms by (auto simp: alloc_all_def Let_def)

lemma alloc_all_next:
  assumes "alloc_all cols st = (f, st')"
  shows "next_free st' = next_free st + length cols"
  using assms by (auto simp: alloc_all_def Let_def)

lemma alloc_all_addresses:
  assumes "alloc_all cols st = (f, st')"
  shows "map snd f = [next_free st ..< next_free st + length cols]"
  using assms by (auto simp: alloc_all_def Let_def)


lemma feature_builder_columns:
  assumes "feature_builder st data = Inr (X, y, st')"
  shows "\<exists>cols. feature_table (frame_columns st data) = Inr cols
             \<and> alloc_all cols st = (X, st') \<and> map_of data ''actual'' = Some y"
  using assms
  by (auto simp: feature_builder_def and_then_def split: sum.splits prod.splits option.splits)

lemma sample_loaded: "alloc_all sample_file empty_store = (sample_data, sample_store)"
  by (simp add: sample_data_def sample_store_def read_csv_def)

lemma sample_columns: "frame_columns sample_store sample_data = sample_file"
  using sample_loaded by (rule alloc_all_columns)

lemma alloc_all_labels:
  assumes "alloc_all cols st = (f, st')"
  shows "map fst f = map fst cols"
proof -
  from assms have "f = zip (map fst cols) [next_free st ..< next_free st + length cols]"
    by (auto simp: alloc_all_def Let_def)
  then show ?thesis by simp
qed

lemma sample_labels: "map fst sample_data = map fst sample_file"
  using sample_loaded by (rule alloc_all_labels)





section \<open>Properties of the run\<close>

lemma frame_columns_update_other:
  "a \<notin> set (map snd f) \<Longrightarrow>
   frame_columns (st\<lparr>buffers := (buffers st)(a := v)\<rparr>) f = frame_columns st f"
  by (induction f) (auto simp: frame_columns_def)

lemma impute_columns_effect:
  assumes "distinct (map snd f)"
  shows "case impute_columns mode0 st f of
           Inl e \<Rightarrow> impute_table mode0 (frame_columns st f) = Inl e
         | Inr st' \<Rightarrow>
             impute_table mode0 (frame_columns st f) = Inr (frame_columns st' f)
             \<and> next_free st' = next_free st
             \<and> (\<forall>a. a \<notin> set (map snd f) \<longrightarrow> buffers st' a = buffers st a)"
  using assms
proof (induction f arbitrary: st)
  case Nil
  then show ?case by (simp add: impute_table_def frame_columns_def)
next
  case (Cons p f)
  obtain c a where p: "p = (c, a)" by (cases p)
  from Cons.prems p have a: "a \<notin> set (map snd f)" and d: "distinct (map snd f)" by auto
  let ?col = "buffers st a"
  show ?case
  proof (cases "fill_value mode0 ?col")
    case (Inl e)
    then show ?thesis
      by (simp add: p impute_table_def frame_columns_def fill_value_def and_then_def Let_def)
  next
    case (Inr v)
    let ?st1 = "st\<lparr>buffers := (buffers st)(a := fillna ?col v)\<rparr>"
    have step: "impute_columns mode0 st (p # f) = impute_columns mode0 ?st1 f"
      using Inr by (simp add: p fill_value_def Let_def)
    have same: "frame_columns ?st1 f = frame_columns st f"
      using a by (rule frame_columns_update_other)
    have head: "impute_table mode0 (frame_columns st (p # f)) =
                  (case impute_table mode0 (frame_columns st f) of
                     Inl e \<Rightarrow> Inl e | Inr rest \<Rightarrow> Inr ((c, fillna ?col v) # rest))"
      using Inr by (simp add: p impute_table_def frame_columns_def and_then_def)
    from Cons.IH [OF d, of ?st1] show ?thesis
      unfolding step head same
      using a by (auto simp: frame_columns_def p split: sum.splits)
  qed
qed


lemma transform_in_place_effect:
  assumes "distinct (map snd f)"
  shows "next_free (transform_in_place st f) = next_free st
       \<and> (\<forall>a. a \<notin> set (map snd f) \<longrightarrow> buffers (transform_in_place st f) a = buffers st a)
       \<and> (\<forall>a\<in>set (map snd f). buffers (transform_in_place st f) a =
              map (transform_cell (fit_column (buffers st a))) (buffers st a))"
  using assms
proof (induction f arbitrary: st)
  case Nil
  then show ?case by simp
next
  case (Cons p f)
  obtain c a where p: "p = (c, a)" by (cases p)
  from Cons.prems p have a: "a \<notin> set (map snd f)" and d: "distinct (map snd f)" by auto
  let ?st1 = "st\<lparr>buffers := (buffers st)(a := map (transform_cell (fit_column (buffers st a)))
                                                (buffers st a))\<rparr>"
  have step: "transform_in_place st (p # f) = transform_in_place ?st1 f"
    by (simp add: p)
  from Cons.IH [OF d, of ?st1] show ?case
    unfolding step using a by (auto simp: p)
qed

lemma numeric_features_addresses:
  "set (map snd (numeric_features st X)) \<subseteq> set (map snd X)"
  by (auto simp: numeric_features_def)

lemma numeric_features_distinct:
  "distinct (map snd X) \<Longrightarrow> distinct (map snd (numeric_features st X))"
  by (simp add: numeric_features_def distinct_map_filter)

lemma numeric_features_member:
  "(c, a) \<in> set X \<Longrightarrow> a \<in> set (map snd (numeric_features st X)) \<longleftrightarrow> is_numeric (buffers st a)"
  by (force simp: numeric_features_def)

lemma scale_features_effect:
  assumes sc: "scale_features st X = Inr (X_unscaled, scaler, st')"
    and d: "distinct (map snd X)"
    and old: "\<forall>a\<in>set (map snd X). a < next_free st"
  shows "scaler = map (\<lambda>(c, a). (c, fit_column (buffers st a))) (numeric_features st X)"
    and "frame_columns st' X = scale_table (frame_columns st X)"
    and "frame_columns st' X_unscaled = frame_columns st X"
    and "\<forall>a. a < next_free st \<and> a \<notin> set (map snd X) \<longrightarrow> buffers st' a = buffers st a"
    and "next_free st' = next_free st + length X"
    and "\<forall>(c, a)\<in>set X. length (buffers st' a) = length (buffers st a)"
proof -
  let ?numeric = "numeric_features st X"
  obtain st1 where al: "alloc_all (frame_columns st X) st = (X_unscaled, st1)"
    and st': "st' = transform_in_place st1 ?numeric"
    and scaler: "scaler = map (\<lambda>(c, a). (c, fit_column (buffers st a))) ?numeric"
    using sc by (auto simp: scale_features_def Let_def split: prod.splits if_splits)
  show "scaler = map (\<lambda>(c, a). (c, fit_column (buffers st a))) ?numeric" by (rule scaler)
  have len: "length (frame_columns st X) = length X" by (simp add: frame_columns_def)
  have tr: "next_free st' = next_free st1"
    "\<And>a. a \<notin> set (map snd ?numeric) \<Longrightarrow> buffers st' a = buffers st1 a"
    "\<And>a. a \<in> set (map snd ?numeric) \<Longrightarrow>
       buffers st' a = map (transform_cell (fit_column (buffers st1 a))) (buffers st1 a)"
    using transform_in_place_effect [of ?numeric st1, OF numeric_features_distinct [OF d]]
    unfolding st' by blast+
  have keep: "buffers st1 a = buffers st a" if "a < next_free st" for a
    using al that by (rule alloc_all_old)
  show "next_free st' = next_free st + length X"
    using alloc_all_next [OF al] tr(1) len by simp
  have untouched: "buffers st' a = buffers st1 a" if "a \<notin> set (map snd X)" for a
  proof -
    from that numeric_features_addresses [of st X] have "a \<notin> set (map snd ?numeric)"
      by blast
    then show ?thesis by (rule tr(2))
  qed
  show "\<forall>a. a < next_free st \<and> a \<notin> set (map snd X) \<longrightarrow> buffers st' a = buffers st a"
  proof (intro allI impI)
    fix a
    assume "a < next_free st \<and> a \<notin> set (map snd X)"
    then show "buffers st' a = buffers st a"
      using untouched [of a] keep [of a] by simp
  qed
  have cell: "buffers st' a =
                (if is_numeric (buffers st a)
                 then map (transform_cell (fit_column (buffers st a))) (buffers st a)
                 else buffers st a)"
    if "(c, a) \<in> set X" for c a
  proof -
    from that old have a: "a < next_free st" by force
    have mem: "a \<in> set (map snd ?numeric) \<longleftrightarrow> is_numeric (buffers st a)"
      using that by (rule numeric_features_member)
    show ?thesis
    proof (cases "is_numeric (buffers st a)")
      case True
      with mem have "a \<in> set (map snd ?numeric)" by simp
      then have "buffers st' a = map (transform_cell (fit_column (buffers st1 a))) (buffers st1 a)"
        by (rule tr(3))
      then show ?thesis using True keep [OF a] by simp
    next
      case False
      with mem have "a \<notin> set (map snd ?numeric)" by simp
      then have "buffers st' a = buffers st1 a" by (rule tr(2))
      then show ?thesis using False keep [OF a] by simp
    qed
  qed
  show "\<forall>(c, a)\<in>set X. length (buffers st' a) = length (buffers st a)"
  proof (intro ballI)
    fix p assume p: "p \<in> set X"
    obtain c a where ca: "p = (c, a)" by (cases p)
    from p ca cell [of c a] show "case p of (c, a) \<Rightarrow> length (buffers st' a) = length (buffers st a)"
      by (cases "is_numeric (buffers st a)") simp_all
  qed
  have "map (\<lambda>(c, a). (c, buffers st' a)) X =
        map ((\<lambda>(c, col). (c, if is_numeric col then map (transform_cell (fit_column col)) col
                                 else col)) \<circ> (\<lambda>(c, a). (c, buffers st a))) X"
  proof (rule map_cong [OF refl])
    fix p assume p: "p \<in> set X"
    obtain c a where ca: "p = (c, a)" by (cases p)
    from p ca cell [of c a] show "(case p of (c, a) \<Rightarrow> (c, buffers st' a)) =
        ((\<lambda>(c, col). (c, if is_numeric col then map (transform_cell (fit_column col)) col
                                 else col)) \<circ> (\<lambda>(c, a). (c, buffers st a))) p"
      by simp
  qed
  then show "frame_columns st' X = scale_table (frame_columns st X)"
    by (simp add: frame_columns_def scale_table_def)
  have fresh: "a \<notin> set (map snd X)" if "a \<in> set (map snd X_unscaled)" for a
  proof -
    from that alloc_all_addresses [OF al] have "next_free st \<le> a" by simp
    with old show ?thesis by force
  qed
  have "map (\<lambda>(c, a). (c, buffers st' a)) X_unscaled =
        map (\<lambda>(c, a). (c, buffers st1 a)) X_unscaled"
  proof (rule map_cong [OF refl])
    fix p assume p: "p \<in> set X_unscaled"
    obtain c a where ca: "p = (c, a)" by (cases p)
    with p have "a \<in> set (map snd X_unscaled)" by force
    then have "buffers st' a = buffers st1 a" by (intro untouched fresh)
    with ca show "(case p of (c, a) \<Rightarrow> (c, buffers st' a)) =
                  (case p of (c, a) \<Rightarrow> (c, buffers st1 a))"
      by simp
  qed
  then have "frame_columns st' X_unscaled = frame_columns st1 X_unscaled"
    by (simp add: frame_columns_def)
  then show "frame_columns st' X_unscaled = frame_columns st X"
    using alloc_all_columns [OF al] by simp
qed


lemma and_then_Inr:
  assumes "and_then m f = Inr r"
  obtains x where "m = Inr x" and "f x = Inr r"
  using assms by (cases m) (simp_all add: and_then_def)

lemma map_result_Inr:
  "map_result f xs = Inr ys \<Longrightarrow> map Inr ys = map f xs"
  by (induction xs arbitrary: ys) (auto split: sum.splits)

lemma map_result_length:
  "map_result f xs = Inr ys \<Longrightarrow> length ys = length xs"
  by (induction xs arbitrary: ys) (auto split: sum.splits)

lemma pipeline_stages:
  assumes "pipeline mode0 splitter st0 data = Inr r"
  obtains X y st1 st2 X_unscaled scaler st3 y_log sp data' st4 pred where
    "feature_builder st0 data = Inr (X, y, st1)"
    "impute_columns mode0 st1 X = Inr st2"
    "scale_features st2 X = Inr (X_unscaled, scaler, st3)"
    "map_result log1p (buffers st3 y) = Inr y_log"
    "train_test_split splitter (frame_columns st3 X) y_log = Inr sp"
    "add_effort_cocomo st3 data = Inr (data', st4)"
    "cocomo_predictions st4 data' (test_indices sp) = Inr pred"
    "r = \<lparr>store_out = st4, data_out = data', X_out = X, X_unscaled_out = X_unscaled,
          y_out = y, y_log_out = y_log, scaler_out = scaler, split_out = sp,
          cocomo_pred_out = pred\<rparr>"
proof -
  from assms obtain p1 where s1: "feature_builder st0 data = Inr p1"
    and r1: "(case p1 of (X, y, st1) \<Rightarrow>
     and_then (impute_columns mode0 st1 X) (\<lambda>st2.
     and_then (scale_features st2 X) (\<lambda>(X_unscaled, scaler, st3).
     and_then (map_result log1p (buffers st3 y)) (\<lambda>y_log.
     and_then (train_test_split splitter (frame_columns st3 X) y_log) (\<lambda>sp.
     and_then (add_effort_cocomo st3 data) (\<lambda>(data', st4).
     and_then (cocomo_predictions st4 data' (test_indices sp)) (\<lambda>pred.
     Inr \<lparr>store_out = st4, data_out = data', X_out = X, X_unscaled_out = X_unscaled,
          y_out = y, y_log_out = y_log, scaler_out = scaler, split_out = sp,
          cocomo_pred_out = pred\<rparr>))))))) = Inr r"
    unfolding pipeline_def by (rule and_then_Inr)
  obtain X y st1 where p1: "p1 = (X, y, st1)" by (cases p1)
  from r1 [unfolded p1 prod.case] obtain st2 where s2: "impute_columns mode0 st1 X = Inr st2"
    and r2: "and_then (scale_features st2 X) (\<lambda>(X_unscaled, scaler, st3).
     and_then (map_result log1p (buffers st3 y)) (\<lambda>y_log.
     and_then (train_test_split splitter (frame_columns st3 X) y_log) (\<lambda>sp.
     and_then (add_effort_cocomo st3 data) (\<lambda>(data', st4).
     and_then (cocomo_predictions st4 data' (test_indices sp)) (\<lambda>pred.
     Inr \<lparr>store_out = st4, data_out = data', X_out = X, X_unscaled_out = X_unscaled,
          y_out = y, y_log_out = y_log, scaler_out = scaler, split_out = sp,
          cocomo_pred_out = pred\<rparr>))))) = Inr r"
    by (rule and_then_Inr)
  from r2 obtain p3 where s3: "scale_features st2 X = Inr p3"
    and r3: "(case p3 of (X_unscaled, scaler, st3) \<Rightarrow>
     and_then (map_result log1p (buffers st3 y)) (\<lambda>y_log.
     and_then (train_test_split splitter (frame_columns st3 X) y_log) (\<lambda>sp.
     and_then (add_effort_cocomo st3 data) (\<lambda>(data', st4).
     and_then (cocomo_predictions st4 data' (test_indices sp)) (\<lambda>pred.
     Inr \<lparr>store_out = st4, data_out = data', X_out = X, X_unscaled_out = X_unscaled,
          y_out = y, y_log_out = y_log, scaler_out = scaler, split_out = sp,
          cocomo_pred_out = pred\<rparr>))))) = Inr r"
    by (rule and_then_Inr)
  obtain X_unscaled scaler st3 where p3: "p3 = (X_unscaled, scaler, st3)" by (cases p3)
  from r3 [unfolded p3 prod.case] obtain y_log where
    s4: "map_result log1p (buffers st3 y) = Inr y_log"
    and r4: "and_then (train_test_split splitter (frame_columns st3 X) y_log) (\<lambda>sp.
     and_then (add_effort_cocomo st3 data) (\<lambda>(data', st4).
     and_then (cocomo_predictions st4 data' (test_indices sp)) (\<lambda>pred.
     Inr \<lparr>store_out = st4, data_out = data', X_out = X, X_unscaled_out = X_unscaled,
          y_out = y, y_log_out = y_log, scaler_out = scaler, split_out = sp,
          cocomo_pred_out = pred\<rparr>))) = Inr r"
    by (rule and_then_Inr)
  from r4 obtain sp where s5: "train_test_split splitter (frame_columns st3 X) y_log = Inr sp"
    and r5: "and_then (add_effort_cocomo st3 data) (\<lambda>(data', st4).
     and_then (cocomo_predictions st4 data' (test_indices sp)) (\<lambda>pred.
     Inr \<lparr>store_out = st4, data_out = data', X_out = X, X_unscaled_out = X_unscaled,
          y_out = y, y_log_out = y_log, scaler_out = scaler, split_out = sp,
          cocomo_pred_out = pred\<rparr>)) = Inr r"
    by (rule and_then_Inr)
  from r5 obtain p6 where s6: "add_effort_cocomo st3 data = Inr p6"
    and r6: "(case p6 of (data', st4) \<Rightarrow>
     and_then (cocomo_predictions st4 data' (test_indices sp)) (\<lambda>pred.
     Inr \<lparr>store_out = st4, data_out = data', X_out = X, X_unscaled_out = X_unscaled,
          y_out = y, y_log_out = y_log, scaler_out = scaler, split_out = sp,
          cocomo_pred_out = pred\<rparr>)) = Inr r"
    by (rule and_then_Inr)
  obtain data' st4 where p6: "p6 = (data', st4)" by (cases p6)
  from r6 [unfolded p6 prod.case] obtain pred where
    s7: "cocomo_predictions st4 data' (test_indices sp) = Inr pred"
    and r7: "Inr \<lparr>store_out = st4, data_out = data', X_out = X, X_unscaled_out = X_unscaled,
          y_out = y, y_log_out = y_log, scaler_out = scaler, split_out = sp,
          cocomo_pred_out = pred\<rparr> = Inr r"
    by (rule and_then_Inr) blast
  from r7 have "r = \<lparr>store_out = st4, data_out = data', X_out = X, X_unscaled_out = X_unscaled,
          y_out = y, y_log_out = y_log, scaler_out = scaler, split_out = sp,
          cocomo_pred_out = pred\<rparr>" by simp
  with s1 [unfolded p1] s2 s3 [unfolded p3] s4 s5 s6 [unfolded p6] s7 show ?thesis
    by (rule that)
qed


lemma map_of_set_column: "map_of (set_column df c a) c = Some a"
proof (cases "c \<in> set (map fst df)")
  case True
  then show ?thesis
    by (induction df) (auto simp: set_column_def)
next
  case False
  then have "map_of df c = None" by (simp add: map_of_eq_None_iff)
  with False show ?thesis by (simp add: set_column_def map_add_def)
qed

text \<open>
  The buffers below \<open>next_free st0\<close> are those of the objects that exist before the run.
  No stage writes there: the feature builder, the copy \<^verbatim>\<open>X_unscaled\<close> and the new column
  of \<^verbatim>\<open>data\<close> take fresh buffers, and the imputer and the scaler write into the
  buffers of \<^verbatim>\<open>X\<close> only.
\<close>

lemma pipeline_frame:
  assumes fb: "feature_builder st0 data = Inr (X, y, st1)"
    and im: "impute_columns mode0 st1 X = Inr st2"
    and sc: "scale_features st2 X = Inr (X_unscaled, scaler, st3)"
  shows "\<forall>a<next_free st0. buffers st3 a = buffers st0 a"
    and "next_free st0 \<le> next_free st3"
    and "distinct (map snd X)"
    and "\<forall>a\<in>set (map snd X). next_free st0 \<le> a \<and> a < next_free st2"
proof -
  from feature_builder_columns [OF fb] obtain cols where
    al: "alloc_all cols st0 = (X, st1)" by blast
  have addr: "map snd X = [next_free st0 ..< next_free st0 + length cols]"
    using al by (rule alloc_all_addresses)
  show d: "distinct (map snd X)" by (simp add: addr)
  have n1: "next_free st1 = next_free st0 + length cols" using al by (rule alloc_all_next)
  from impute_columns_effect [OF d, of mode0 st1] im
  have n2: "next_free st2 = next_free st1"
    and keep2: "\<forall>a. a \<notin> set (map snd X) \<longrightarrow> buffers st2 a = buffers st1 a"
    by simp_all
  show range: "\<forall>a\<in>set (map snd X). next_free st0 \<le> a \<and> a < next_free st2"
    by (simp add: addr n1 n2)
  then have old: "\<forall>a\<in>set (map snd X). a < next_free st2" by blast
  from scale_features_effect(4,5) [OF sc d old]
  have keep3: "\<forall>a. a < next_free st2 \<and> a \<notin> set (map snd X) \<longrightarrow> buffers st3 a = buffers st2 a"
    and n3: "next_free st3 = next_free st2 + length X"
    by simp_all
  show "next_free st0 \<le> next_free st3" by (simp add: n1 n2 n3)
  show "\<forall>a<next_free st0. buffers st3 a = buffers st0 a"
  proof (intro allI impI)
    fix a assume a: "a < next_free st0"
    then have out: "a \<notin> set (map snd X)" by (simp add: addr)
    have "buffers st3 a = buffers st2 a" using keep3 a out n1 n2 by simp
    also have "\<dots> = buffers st1 a" using keep2 out by simp
    also have "\<dots> = buffers st0 a" using al a by (rule alloc_all_old)
    finally show "buffers st3 a = buffers st0 a" .
  qed
qed

lemma frame_columns_same:
  assumes "\<forall>a\<in>set (map snd df). buffers st' a = buffers st a"
  shows "frame_columns st' df = frame_columns st df"
  unfolding frame_columns_def using assms by (induction df) auto

text \<open>
  C10. In a run that reaches the baseline predictions from a loaded table, every column
  of the loaded table holds at the end what it held at the start, the target \<^verbatim>\<open>y\<close> is
  the unchanged \<^verbatim>\<open>actual\<close> column, \<^verbatim>\<open>data\<close> differs from the loaded frame only by
  the new column \<^verbatim>\<open>effort_cocomo\<close>, and the baseline predictions are the estimator's
  results on the rows of the loaded table at the test positions: the imputed and
  scaled \<^verbatim>\<open>X\<close> does not enter them.
\<close>

theorem baseline_reads_raw_data:
  assumes loaded: "\<forall>a\<in>set (map snd data). a < next_free st0"
    and run: "pipeline mode0 splitter st0 data = Inr r"
  shows "frame_columns (store_out r) data = frame_columns st0 data
       \<and> map_of data ''actual'' = Some (y_out r)
       \<and> buffers (store_out r) (y_out r) = buffers st0 (y_out r)
       \<and> map Inr (cocomo_pred_out r) =
           map (\<lambda>i. calculate_cocomo_effort (row_at (frame_columns st0 data) i))
               (test_indices (split_out r))
       \<and> (\<exists>a. next_free st0 \<le> a \<and> data_out r = set_column data ''effort_cocomo'' a)"
proof -
  from run obtain X y st1 st2 X_unscaled scaler st3 y_log sp data' st4 pred where
    fb: "feature_builder st0 data = Inr (X, y, st1)"
    and im: "impute_columns mode0 st1 X = Inr st2"
    and sc: "scale_features st2 X = Inr (X_unscaled, scaler, st3)"
    and ef: "add_effort_cocomo st3 data = Inr (data', st4)"
    and pr: "cocomo_predictions st4 data' (test_indices sp) = Inr pred"
    and r: "r = \<lparr>store_out = st4, data_out = data', X_out = X, X_unscaled_out = X_unscaled,
          y_out = y, y_log_out = y_log, scaler_out = scaler, split_out = sp,
          cocomo_pred_out = pred\<rparr>"
    by (rule pipeline_stages)
  have keep3: "\<forall>a<next_free st0. buffers st3 a = buffers st0 a"
    and n3: "next_free st0 \<le> next_free st3"
    using pipeline_frame [OF fb im sc] by blast+
  from ef have "\<exists>effort.
      apply_rows calculate_cocomo_effort (frame_columns st3 data) = Inr effort
      \<and> data' = set_column data ''effort_cocomo'' (next_free st3)
      \<and> buffers st4 = (buffers st3)(next_free st3 := effort)"
    by (cases "apply_rows calculate_cocomo_effort (frame_columns st3 data)")
      (auto simp: add_effort_cocomo_def and_then_def alloc_def)
  then obtain effort where
    ap: "apply_rows calculate_cocomo_effort (frame_columns st3 data) = Inr effort"
    and data': "data' = set_column data ''effort_cocomo'' (next_free st3)"
    and st4: "buffers st4 = (buffers st3)(next_free st3 := effort)"
    by blast
  have keep4: "buffers st4 a = buffers st0 a" if "a < next_free st0" for a
    using that keep3 n3 by (simp add: st4)
  have cols3: "frame_columns st3 data = frame_columns st0 data"
    using loaded keep3 by (intro frame_columns_same) simp
  have cols4: "frame_columns st4 data = frame_columns st0 data"
    using loaded keep4 by (intro frame_columns_same) simp
  from feature_builder_columns [OF fb] have y: "map_of data ''actual'' = Some y" by blast
  then have "(''actual'', y) \<in> set data" by (rule map_of_SomeD)
  then have "y \<in> set (map snd data)" by force
  with loaded have "y < next_free st0" by blast
  then have ybuf: "buffers st4 y = buffers st0 y" by (rule keep4)
  let ?t = "frame_columns st0 data"
  have eff: "map Inr effort = map (\<lambda>i. calculate_cocomo_effort (row_at ?t i)) [0 ..< nrows ?t]"
    using map_result_Inr [OF ap [unfolded apply_rows_def cols3]] by (simp add: comp_def)
  from eff have len: "length effort = nrows ?t"
    by (metis length_map length_upt minus_nat.diff_0)
  from pr have idx: "\<forall>i\<in>set (test_indices sp). i < length effort"
    and pred: "pred = map (\<lambda>i. effort ! i) (test_indices sp)"
    by (auto simp: cocomo_predictions_def data' map_of_set_column st4 split: if_splits)
  have "Inr (effort ! i) = calculate_cocomo_effort (row_at ?t i)" if "i < length effort" for i
  proof -
    from that have "map Inr effort ! i = Inr (effort ! i)" by simp
    moreover from that len
    have "map (\<lambda>i. calculate_cocomo_effort (row_at ?t i)) [0 ..< nrows ?t] ! i =
            calculate_cocomo_effort (row_at ?t i)"
      by simp
    ultimately show ?thesis using eff by metis
  qed
  with idx have base: "map Inr pred =
      map (\<lambda>i. calculate_cocomo_effort (row_at ?t i)) (test_indices sp)"
    by (simp add: pred)
  from cols4 y ybuf base n3 data' show ?thesis
    unfolding r by auto
qed


lemma take_rows_valid:
  "take_rows t idx = Inr t' \<Longrightarrow> (c, col) \<in> set t \<Longrightarrow> i \<in> set idx \<Longrightarrow> i < length col"
  unfolding take_rows_def
  by (induction t arbitrary: t')
    (auto simp: and_then_def pick_def split: sum.splits if_splits)

lemma train_test_split_test_rows:
  assumes "train_test_split splitter Xt yl = Inr sp"
    and "(c, col) \<in> set Xt" and "i \<in> set (test_indices sp)"
  shows "i < length col"
proof -
  from assms(1) obtain train test xte where
    "take_rows Xt test = Inr xte" and "test_indices sp = test"
    by (auto simp: train_test_split_def and_then_def split: sum.splits prod.splits)
  with assms(2,3) show ?thesis by (auto intro: take_rows_valid)
qed

text \<open>
  C3. In a run that reaches the split, the retained pair of every numeric feature is the
  fit (mean and standard deviation) of the whole imputed column of \<^verbatim>\<open>X\<close>: every test
  position is a row of that column, and the pairs are the same for every other choice
  of the split.
\<close>

theorem scaler_fitted_on_all_rows:
  assumes run: "pipeline mode0 splitter st0 data = Inr r"
  shows "\<exists>X y st1 st2.
           feature_builder st0 data = Inr (X, y, st1)
         \<and> impute_columns mode0 st1 X = Inr st2
         \<and> scaler_out r =
             map (\<lambda>(c, a). (c, fit_column (buffers st2 a))) (numeric_features st2 X)
         \<and> (\<forall>(c, a)\<in>set X. \<forall>i\<in>set (test_indices (split_out r)).
               i < length (buffers st2 a))
         \<and> (\<forall>splitter' r'. pipeline mode0 splitter' st0 data = Inr r' \<longrightarrow>
               scaler_out r' = scaler_out r)"
proof -
  from run obtain X y st1 st2 X_unscaled scaler st3 y_log sp data' st4 pred where
    fb: "feature_builder st0 data = Inr (X, y, st1)"
    and im: "impute_columns mode0 st1 X = Inr st2"
    and sc: "scale_features st2 X = Inr (X_unscaled, scaler, st3)"
    and tts: "train_test_split splitter (frame_columns st3 X) y_log = Inr sp"
    and r: "r = \<lparr>store_out = st4, data_out = data', X_out = X, X_unscaled_out = X_unscaled,
          y_out = y, y_log_out = y_log, scaler_out = scaler, split_out = sp,
          cocomo_pred_out = pred\<rparr>"
    by (rule pipeline_stages)
  have d: "distinct (map snd X)"
    and range: "\<forall>a\<in>set (map snd X). next_free st0 \<le> a \<and> a < next_free st2"
    using pipeline_frame [OF fb im sc] by blast+
  from range have old: "\<forall>a\<in>set (map snd X). a < next_free st2" by blast
  have fit: "scaler = map (\<lambda>(c, a). (c, fit_column (buffers st2 a))) (numeric_features st2 X)"
    using sc d old by (rule scale_features_effect(1))
  have lens: "\<forall>(c, a)\<in>set X. length (buffers st3 a) = length (buffers st2 a)"
    using sc d old by (rule scale_features_effect(6))
  have row: "i < length (buffers st2 a)"
    if p: "(c, a) \<in> set X" and i: "i \<in> set (test_indices sp)" for c a i
  proof -
    from p have "(c, buffers st3 a) \<in> set (frame_columns st3 X)"
      by (force simp: frame_columns_def)
    with tts have "i < length (buffers st3 a)"
      using i by (rule train_test_split_test_rows)
    with lens p show ?thesis by auto
  qed
  then have rows: "\<forall>(c, a)\<in>set X. \<forall>i\<in>set (test_indices sp). i < length (buffers st2 a)"
    by blast
  have other: "scaler_out r' = scaler"
    if "pipeline mode0 splitter' st0 data = Inr r'" for splitter' r'
  proof -
    from that obtain X' y' st1' st2' X_unscaled' scaler' st3' y_log' sp' data'' st4' pred' where
      fb': "feature_builder st0 data = Inr (X', y', st1')"
      and im': "impute_columns mode0 st1' X' = Inr st2'"
      and sc': "scale_features st2' X' = Inr (X_unscaled', scaler', st3')"
      and r': "r' = \<lparr>store_out = st4', data_out = data'', X_out = X',
          X_unscaled_out = X_unscaled', y_out = y', y_log_out = y_log', scaler_out = scaler',
          split_out = sp', cocomo_pred_out = pred'\<rparr>"
      by (rule pipeline_stages)
    from fb fb' have "X' = X" "st1' = st1" by simp_all
    with im im' have "st2' = st2" by simp
    with sc sc' \<open>X' = X\<close> have "scaler' = scaler" by simp
    then show ?thesis by (simp add: r')
  qed
  from fb im fit rows other show ?thesis
    unfolding r by (intro exI [of _ X] exI [of _ y] exI [of _ st1] exI [of _ st2]) simp
qed

section \<open>The run on the sample file\<close>

lemma sample_feature_table_value: "feature_table sample_file = Inr sample_features"
  by (simp add: feature_table_def and_then_def get_dummies_def sample_file_def cost_drivers_def
      categories_def mode_columns_def indicator_def sample_features_def)

lemma sample_impute_table: "impute_table mode0 sample_features = Inr sample_imputed"
  by (simp add: impute_table_def fill_value_def and_then_def sample_features_def
      sample_imputed_def cost_drivers_def is_object_def median_def fillna_def)


lemma numeric_features_columns:
  "frame_columns st (numeric_features st X) =
   filter (\<lambda>(c, col). is_numeric col) (frame_columns st X)"
  by (induction X) (auto simp: frame_columns_def numeric_features_def)

lemma scale_features_returns:
  assumes "filter (\<lambda>(c, col). is_numeric col) (frame_columns st X) \<noteq> []"
    and "nrows (frame_columns st X) \<noteq> 0"
  shows "\<exists>X_unscaled scaler st'. scale_features st X = Inr (X_unscaled, scaler, st')"
proof -
  from assms(1) have "frame_columns st (numeric_features st X) \<noteq> []"
    by (simp add: numeric_features_columns)
  then have "numeric_features st X \<noteq> []"
    by (auto simp: frame_columns_def)
  with assms(2) show ?thesis
    by (simp add: scale_features_def Let_def split: prod.splits)
qed

lemma take_rows_returns:
  assumes "\<forall>(c, col)\<in>set t. \<forall>i\<in>set idx. i < length col"
  shows "\<exists>t'. take_rows t idx = Inr t'"
  using assms unfolding take_rows_def
  by (induction t) (auto simp: and_then_def pick_def)

lemma train_test_split_returns:
  assumes sp: "splitter (nrows Xt) = Inr (train, test)"
    and rows: "\<forall>(c, col)\<in>set Xt. \<forall>i\<in>set (train @ test). i < length col"
    and targets: "\<forall>i\<in>set (train @ test). i < length yl"
  shows "\<exists>s. train_test_split splitter Xt yl = Inr s \<and> test_indices s = test"
proof -
  from rows have tr: "\<forall>(c, col)\<in>set Xt. \<forall>i\<in>set train. i < length col"
    and te: "\<forall>(c, col)\<in>set Xt. \<forall>i\<in>set test. i < length col"
    by auto
  from take_rows_returns [OF tr] obtain xtr where xtr: "take_rows Xt train = Inr xtr" ..
  from take_rows_returns [OF te] obtain xte where xte: "take_rows Xt test = Inr xte" ..
  from targets have "\<forall>i\<in>set train. i < length yl" and "\<forall>i\<in>set test. i < length yl"
    by auto
  then show ?thesis
    by (simp add: train_test_split_def and_then_def pick_def sp xtr xte)
qed

lemma scale_table_lengths:
  "(c, col) \<in> set (scale_table t) \<Longrightarrow> \<exists>col0. (c, col0) \<in> set t \<and> length col = length col0"
  by (auto simp: scale_table_def split: if_splits)

lemma log1p_nonneg: "0 \<le> x \<Longrightarrow> log1p (Num x) = Inr (Num (ln (1 + x)))"
  by simp


lemma prod_list_nonneg_real:
  fixes xs :: "real list"
  shows "\<forall>x\<in>set xs. 0 \<le> x \<Longrightarrow> 0 \<le> prod_list xs"
  by (induction xs) simp_all

lemma full_numeric_row:
  assumes loc: "row ''loc'' = Some (Num l)" and size: "0 \<le> l"
    and drivers: "\<forall>d\<in>set cost_drivers. row d = Some (Num (rating d))"
    and coeff: "mode_coefficients row = (a, b)" and a: "0 \<le> a"
    and ratings: "\<forall>d\<in>set cost_drivers. 0 \<le> rating d"
  shows "calculate_cocomo_effort row =
           Inr (Num (ln (1 + a * l powr b * prod_list (map rating cost_drivers))))"
proof -
  from drivers have pres: "present_drivers row = cost_drivers"
    by (intro present_drivers_all) simp
  from drivers have d': "\<forall>d\<in>set cost_drivers. row d = None \<or> row d = Some (Num (rating d))"
    by simp
  have "0 \<le> prod_list (map rating cost_drivers)"
    using ratings by (intro prod_list_nonneg_real) simp
  with a have dom: "- 1 < a * l powr b * prod_list (map rating (present_drivers row))"
    unfolding pres by (rule effort_in_domain)
  from cocomo_effort_value [OF loc size d' coeff dom] show ?thesis
    by (simp only: pres)
qed

lemma sample_nrows: "nrows sample_file = 4"
  by (simp add: nrows_def sample_file_def)

lemma sample_row_loc:
  "row_at sample_file 0 ''loc'' = Some (Num 10)"
  "row_at sample_file 1 ''loc'' = Some (Num 20)"
  "row_at sample_file 2 ''loc'' = Some (Num 30)"
  "row_at sample_file 3 ''loc'' = Some (Num 60)"
  by (simp_all add: row_at_def sample_file_def)

lemma sample_row_drivers:
  "\<forall>d\<in>set cost_drivers.
     row_at sample_file 0 d = Some (Num (rating_of [(''rely'', 1.5)] d))"
  "\<forall>d\<in>set cost_drivers. row_at sample_file 1 d = Some (Num (rating_of [] d))"
  "\<forall>d\<in>set cost_drivers. row_at sample_file 2 d = Some (Num (rating_of [] d))"
  by (simp_all add: row_at_def sample_file_def cost_drivers_def rating_of_def)

lemma sample_row_coefficients:
  "mode_coefficients (row_at sample_file 0) = (2.4, 1.05)"
  "mode_coefficients (row_at sample_file 1) = (3.0, 1.12)"
  "mode_coefficients (row_at sample_file 2) = (3.6, 1.20)"
  "mode_coefficients (row_at sample_file 3) = (3.6, 1.20)"
  by (simp_all add: mode_coefficients_def flag_set_def row_at_def sample_file_def
      cost_drivers_def)

lemma sample_ratings_nonneg: "\<forall>d\<in>set cost_drivers. 0 \<le> rating_of [(''rely'', 1.5)] d"
  "\<forall>d\<in>set cost_drivers. 0 \<le> rating_of [] d"
  by (simp_all add: rating_of_def)

lemma sample_products:
  "prod_list (map (rating_of [(''rely'', 1.5)]) cost_drivers) = 1.5"
  "prod_list (map (rating_of []) cost_drivers) = 1"
  by (simp_all add: rating_of_def cost_drivers_def)

lemma sample_row_0:
  "calculate_cocomo_effort (row_at sample_file 0) = Inr (Num (ln (1 + 2.4 * 10 powr 1.05 * 1.5)))"
  using full_numeric_row [OF sample_row_loc(1) _ sample_row_drivers(1) sample_row_coefficients(1)
      _ sample_ratings_nonneg(1)]
  by (simp only: sample_products)

lemma sample_row_1:
  "calculate_cocomo_effort (row_at sample_file 1) = Inr (Num (ln (1 + 3.0 * 20 powr 1.12 * 1)))"
  using full_numeric_row [OF sample_row_loc(2) _ sample_row_drivers(2) sample_row_coefficients(2)
      _ sample_ratings_nonneg(2)]
  by (simp only: sample_products)

lemma sample_row_2:
  "calculate_cocomo_effort (row_at sample_file 2) = Inr (Num (ln (1 + 3.6 * 30 powr 1.20 * 1)))"
  using full_numeric_row [OF sample_row_loc(3) _ sample_row_drivers(3) sample_row_coefficients(3)
      _ sample_ratings_nonneg(2)]
  by (simp only: sample_products)

lemma sample_row_3_multiplier:
  "effort_multiplier (row_at sample_file 3) cost_drivers (Num 1) = Inr NaN"
  by (simp add: row_at_def sample_file_def cost_drivers_def)

lemma sample_row_3: "calculate_cocomo_effort (row_at sample_file 3) = Inr NaN"
  by (simp add: calculate_cocomo_effort_def sample_row_coefficients sample_row_3_multiplier
      sample_row_loc)


lemma sample_effort:
  "apply_rows calculate_cocomo_effort sample_file =
     Inr [Num (ln (1 + 2.4 * 10 powr 1.05 * 1.5)), Num (ln (1 + 3.0 * 20 powr 1.12 * 1)),
          Num (ln (1 + 3.6 * 30 powr 1.20 * 1)), NaN]"
proof -
  have "[0 ..< nrows sample_file] = [0, 1, 2, 3]"
    by (simp add: sample_nrows upt_rec)
  then show ?thesis
    by (simp only: apply_rows_def list.map map_result.simps sum.case
        sample_row_0 sample_row_1 sample_row_2 sample_row_3)
qed

lemma sample_addresses: "\<forall>a\<in>set (map snd sample_data). a < next_free sample_store"
  using alloc_all_addresses [OF sample_loaded] alloc_all_next [OF sample_loaded] by simp

lemma sample_imputed_columns:
  assumes fb: "feature_builder sample_store sample_data = Inr (X, y, st1)"
    and im: "impute_columns mode0 st1 X = Inr st2"
  shows "frame_columns st2 X = sample_imputed"
proof -
  from feature_builder_columns [OF fb] obtain cols where
    ft: "feature_table (frame_columns sample_store sample_data) = Inr cols"
    and al: "alloc_all cols sample_store = (X, st1)"
    by blast
  from ft have "cols = sample_features"
    by (simp add: sample_columns sample_feature_table_value)
  with alloc_all_columns [OF al] have X: "frame_columns st1 X = sample_features" by simp
  have d: "distinct (map snd X)" by (simp add: alloc_all_addresses [OF al])
  from impute_columns_effect [OF d, of mode0 st1] im
  have "impute_table mode0 (frame_columns st1 X) = Inr (frame_columns st2 X)" by simp
  then show ?thesis by (simp add: X sample_impute_table)
qed

lemma sample_imputed_lengths: "\<forall>(c, col)\<in>set sample_imputed. length col = 4"
  by (simp add: sample_imputed_def cost_drivers_def)

lemma sample_run:
  "\<exists>r. pipeline mode0 sample_splitter sample_store sample_data = Inr r
       \<and> test_indices (split_out r) = [3]"
proof -
  obtain X st1 where al: "alloc_all sample_features sample_store = (X, st1)" by force
  have "''actual'' \<in> set (map fst sample_data)"
    by (simp add: sample_labels sample_file_def)
  then obtain y where y: "map_of sample_data ''actual'' = Some y"
    by (metis map_of_eq_None_iff not_None_eq set_map)
  have fb: "feature_builder sample_store sample_data = Inr (X, y, st1)"
    by (simp add: feature_builder_def and_then_def sample_columns sample_feature_table_value
        al y)
  have d: "distinct (map snd X)" by (simp add: alloc_all_addresses [OF al])
  have X1: "frame_columns st1 X = sample_features" using al by (rule alloc_all_columns)
  obtain st2 where im: "impute_columns mode0 st1 X = Inr st2"
    using impute_columns_effect [OF d, of mode0 st1]
    by (cases "impute_columns mode0 st1 X") (simp_all add: X1 sample_impute_table)
  have X2: "frame_columns st2 X = sample_imputed"
    using fb im by (rule sample_imputed_columns)
  have "filter (\<lambda>(c, col). is_numeric col) (frame_columns st2 X) \<noteq> []"
    by (simp add: X2 sample_imputed_def is_numeric_def)
  moreover have "nrows (frame_columns st2 X) \<noteq> 0"
    by (simp add: X2 sample_imputed_def nrows_def)
  ultimately obtain X_unscaled scaler st3 where
    sc: "scale_features st2 X = Inr (X_unscaled, scaler, st3)"
    using scale_features_returns by blast
  have keep3: "\<forall>a<next_free sample_store. buffers st3 a = buffers sample_store a"
    and range: "\<forall>a\<in>set (map snd X). next_free sample_store \<le> a \<and> a < next_free st2"
    using pipeline_frame [OF fb im sc] by blast+
  from range have old: "\<forall>a\<in>set (map snd X). a < next_free st2" by blast
  have X3: "frame_columns st3 X = scale_table sample_imputed"
    using scale_features_effect(2) [OF sc d old] by (simp add: X2)
  from y have "(''actual'', y) \<in> set sample_data" by (rule map_of_SomeD)
  then have "y \<in> set (map snd sample_data)" by force
  with sample_addresses have "y < next_free sample_store" by blast
  with keep3 have "buffers st3 y = buffers sample_store y" by blast
  moreover have "map_of (frame_columns sample_store sample_data) ''actual'' =
                   Some (buffers sample_store y)"
    by (simp add: map_of_frame_columns y)
  then have "buffers sample_store y = [Num 40, Num 100, Num 300, Num 900]"
    by (simp add: sample_columns sample_file_def cost_drivers_def)
  ultimately have ybuf: "buffers st3 y = [Num 40, Num 100, Num 300, Num 900]" by simp
  let ?y_log = "[Num (ln 41), Num (ln 101), Num (ln 301), Num (ln 901)]"
  have lg: "map_result log1p (buffers st3 y) = Inr ?y_log"
    by (simp add: ybuf)
  have rows: "\<forall>(c, col)\<in>set (frame_columns st3 X). \<forall>i\<in>set ([0, 1, 2] @ [3]). i < length col"
  proof (intro ballI)
    fix p assume mem: "p \<in> set (frame_columns st3 X)"
    obtain c col where p: "p = (c, col)" by (cases p)
    with mem have "(c, col) \<in> set (scale_table sample_imputed)" by (simp add: X3)
    then obtain col0 where "(c, col0) \<in> set sample_imputed" and "length col = length col0"
      using scale_table_lengths by blast
    with sample_imputed_lengths have "length col = 4" by auto
    then show "case p of (c, col) \<Rightarrow> \<forall>i\<in>set ([0, 1, 2] @ [3]). i < length col"
      by (auto simp: p)
  qed
  have chosen: "sample_splitter (nrows (frame_columns st3 X)) = Inr ([0, 1, 2], [3])"
    by (simp add: sample_splitter_def)
  have "\<forall>i\<in>set ([0, 1, 2] @ [3]). i < length ?y_log" by simp
  with train_test_split_returns [of sample_splitter "frame_columns st3 X" "[0, 1, 2]" "[3]" ?y_log,
      OF chosen rows]
  obtain sp where tts: "train_test_split sample_splitter (frame_columns st3 X) ?y_log = Inr sp"
    and test: "test_indices sp = [3]"
    by auto
  have "frame_columns st3 sample_data = frame_columns sample_store sample_data"
    using sample_addresses keep3 by (intro frame_columns_same) simp
  then have ap: "apply_rows calculate_cocomo_effort (frame_columns st3 sample_data) =
      Inr [Num (ln (1 + 2.4 * 10 powr 1.05 * 1.5)), Num (ln (1 + 3.0 * 20 powr 1.12 * 1)),
           Num (ln (1 + 3.6 * 30 powr 1.20 * 1)), NaN]"
    by (simp only: sample_columns sample_effort)
  let ?effort = "[Num (ln (1 + 2.4 * 10 powr 1.05 * 1.5)), Num (ln (1 + 3.0 * 20 powr 1.12 * 1)),
           Num (ln (1 + 3.6 * 30 powr 1.20 * 1)), NaN]"
  let ?data' = "set_column sample_data ''effort_cocomo'' (next_free st3)"
  let ?st4 = "st3\<lparr>buffers := (buffers st3)(next_free st3 := ?effort),
                  next_free := Suc (next_free st3)\<rparr>"
  have ef: "add_effort_cocomo st3 sample_data = Inr (?data', ?st4)"
    by (simp only: add_effort_cocomo_def ap and_then_def alloc_def sum.case prod.case)
  have pr: "cocomo_predictions ?st4 ?data' (test_indices sp) = Inr [NaN]"
    by (simp add: cocomo_predictions_def map_of_set_column test)
  show ?thesis
    unfolding pipeline_def
    by (simp only: and_then_def fb im sc lg tts ef pr sum.case prod.case) (simp add: test)
qed


lemma scaler_pairs_of_columns:
  "map (\<lambda>(c, a). (c, fit_column (buffers st a))) (numeric_features st X) =
   map (\<lambda>(c, col). (c, fit_column col))
     (filter (\<lambda>(c, col). is_numeric col) (frame_columns st X))"
  by (induction X) (auto simp: frame_columns_def numeric_features_def)

lemma sample_fit_loc:
  "fit_column [Num 10, Num 20, Num 30, Num 60] = (Num 30, Num (sqrt 350))"
  "fit_column [Num 10, Num 20, Num 30] = (Num 20, Num (sqrt (200 / 3)))"
  by (simp_all add: fit_column_def mean_def std_def)

theorem baseline_reads_raw_data_witness:
  "\<exists>r. pipeline sample_mode0 sample_splitter sample_store sample_data = Inr r
       \<and> frame_columns (store_out r) sample_data = sample_file
       \<and> row_at sample_file 3 ''rely'' = Some NaN
       \<and> cocomo_pred_out r = [NaN]"
proof -
  from sample_run [of sample_mode0] obtain r where
    run: "pipeline sample_mode0 sample_splitter sample_store sample_data = Inr r"
    and test: "test_indices (split_out r) = [3]"
    by blast
  from baseline_reads_raw_data [OF sample_addresses run]
  have cols: "frame_columns (store_out r) sample_data = frame_columns sample_store sample_data"
    and base: "map Inr (cocomo_pred_out r) =
        map (\<lambda>i. calculate_cocomo_effort (row_at (frame_columns sample_store sample_data) i))
            (test_indices (split_out r))"
    by blast+
  from base have "map Inr (cocomo_pred_out r) = [Inr NaN :: error + pyval]"
    by (simp add: test sample_columns sample_row_3)
  then have pred: "cocomo_pred_out r = [NaN]" by auto
  have raw: "row_at sample_file 3 ''rely'' = Some NaN"
    by (simp add: row_at_def sample_file_def)
  from run cols pred raw show ?thesis by (auto simp: sample_columns)
qed

theorem scaler_fitted_on_all_rows_witness:
  "\<exists>r. pipeline sample_mode0 sample_splitter sample_store sample_data = Inr r
       \<and> test_indices (split_out r) = [3]
       \<and> map_of (scaler_out r) ''loc'' = Some (fit_column [Num 10, Num 20, Num 30, Num 60])
       \<and> fit_column [Num 10, Num 20, Num 30, Num 60] = (Num 30, Num (sqrt 350))
       \<and> fit_column [Num 10, Num 20, Num 30] = (Num 20, Num (sqrt (200 / 3)))"
proof -
  from sample_run [of sample_mode0] obtain r where
    run: "pipeline sample_mode0 sample_splitter sample_store sample_data = Inr r"
    and test: "test_indices (split_out r) = [3]"
    by blast
  from scaler_fitted_on_all_rows [OF run] obtain X y st1 st2 where
    fb: "feature_builder sample_store sample_data = Inr (X, y, st1)"
    and im: "impute_columns sample_mode0 st1 X = Inr st2"
    and fit: "scaler_out r =
        map (\<lambda>(c, a). (c, fit_column (buffers st2 a))) (numeric_features st2 X)"
    by blast
  have "frame_columns st2 X = sample_imputed"
    using fb im by (rule sample_imputed_columns)
  with fit have "scaler_out r =
      map (\<lambda>(c, col). (c, fit_column col)) (filter (\<lambda>(c, col). is_numeric col) sample_imputed)"
    by (simp add: scaler_pairs_of_columns)
  then have "map_of (scaler_out r) ''loc'' = Some (fit_column [Num 10, Num 20, Num 30, Num 60])"
    by (simp add: sample_imputed_def is_numeric_def)
  with run test sample_fit_loc show ?thesis by blast
qed

section \<open>Properties of the splitter\<close>

lemma take_rows_value:
  assumes "\<forall>(c, col)\<in>set t. \<forall>i\<in>set idx. i < length col"
  shows "take_rows t idx = Inr (map (\<lambda>(c, col). (c, map (\<lambda>i. col ! i) idx)) t)"
  using assms unfolding take_rows_def
  by (induction t) (auto simp: and_then_def pick_def)

lemma shuffle_split_fifth_of_100:
  "shuffle_split shuffle 0.2 seed 100 =
     Inr (take 80 (drop 20 (shuffle seed 100)), take 20 (shuffle seed 100))"
  by (simp add: shuffle_split_def Let_def)

lemma nrows_map_rows:
  "t \<noteq> [] \<Longrightarrow> nrows (map (\<lambda>(c, col). (c, map (\<lambda>i. col ! i) idx)) t) = length idx"
  by (cases t) (auto simp: nrows_def)

text \<open>
  C8. With \<^verbatim>\<open>test_size=0.2\<close> and a seed whose shuffle orders the 100 positions, splitting
  a table of 100 rows returns a train part of exactly 80 rows and a test part of exactly
  20 rows, at disjoint positions that together are all 100; the parts are the rows at
  positions fixed by the seed, so a second run with the same seed on the same data
  returns the same split.
\<close>

theorem split_of_100_rows:
  assumes table: "Xt \<noteq> []" "\<forall>(c, col)\<in>set Xt. length col = 100"
    and targets: "length yl = 100"
    and perm: "distinct (shuffle seed 100)" "set (shuffle seed 100) = {..<100}"
  shows "\<exists>sp. train_test_split (shuffle_split shuffle 0.2 seed) Xt yl = Inr sp
           \<and> nrows (X_train sp) = 80 \<and> length (y_train sp) = 80
           \<and> nrows (X_test sp) = 20 \<and> length (y_test sp) = 20
           \<and> test_indices sp = take 20 (shuffle seed 100)
           \<and> X_test sp = map (\<lambda>(c, col). (c, map (\<lambda>i. col ! i) (take 20 (shuffle seed 100)))) Xt
           \<and> X_train sp =
               map (\<lambda>(c, col). (c, map (\<lambda>i. col ! i) (take 80 (drop 20 (shuffle seed 100))))) Xt
           \<and> set (take 80 (drop 20 (shuffle seed 100))) \<inter> set (take 20 (shuffle seed 100)) = {}
           \<and> set (take 80 (drop 20 (shuffle seed 100))) \<union> set (take 20 (shuffle seed 100))
               = {..<100}
           \<and> (\<forall>sp'. train_test_split (shuffle_split shuffle 0.2 seed) Xt yl = Inr sp' \<longrightarrow>
                  sp' = sp)"
proof -
  let ?p = "shuffle seed 100"
  let ?train = "take 80 (drop 20 ?p)"
  let ?test = "take 20 ?p"
  from perm have len: "length ?p = 100"
    by (metis card_lessThan distinct_card)
  then have rest: "?train = drop 20 ?p" by simp
  have whole: "?p = ?test @ drop 20 ?p" by simp
  from perm(1) have "distinct (?test @ drop 20 ?p)" by simp
  then have disjoint: "set ?train \<inter> set ?test = {}"
    unfolding rest by (auto simp del: append_take_drop_id)
  have "set ?train \<union> set ?test = set (?test @ drop 20 ?p)"
    unfolding rest by (simp only: set_append Un_commute)
  then have cover: "set ?train \<union> set ?test = {..<100}"
    using perm(2) by simp
  from cover have below: "\<forall>i\<in>set ?train. i < 100" "\<forall>i\<in>set ?test. i < 100" by auto
  from table obtain c0 col0 rest0 where Xt: "Xt = (c0, col0) # rest0" and "length col0 = 100"
    by (cases Xt) auto
  then have n: "nrows Xt = 100" by (simp add: nrows_def)
  have tr: "take_rows Xt ?train = Inr (map (\<lambda>(c, col). (c, map (\<lambda>i. col ! i) ?train)) Xt)"
    using table(2) below(1) by (intro take_rows_value) auto
  have te: "take_rows Xt ?test = Inr (map (\<lambda>(c, col). (c, map (\<lambda>i. col ! i) ?test)) Xt)"
    using table(2) below(2) by (intro take_rows_value) auto
  let ?sp = "\<lparr>X_train = map (\<lambda>(c, col). (c, map (\<lambda>i. col ! i) ?train)) Xt,
              X_test = map (\<lambda>(c, col). (c, map (\<lambda>i. col ! i) ?test)) Xt,
              y_train = map (\<lambda>i. yl ! i) ?train, y_test = map (\<lambda>i. yl ! i) ?test,
              test_indices = ?test\<rparr>"
  have run: "train_test_split (shuffle_split shuffle 0.2 seed) Xt yl = Inr ?sp"
    unfolding train_test_split_def n shuffle_split_fifth_of_100
    using below targets by (simp add: and_then_def tr te pick_def)
  have sizes: "nrows (X_train ?sp) = 80" "length (y_train ?sp) = 80"
    "nrows (X_test ?sp) = 20" "length (y_test ?sp) = 20"
    using table(1) len by (simp_all add: nrows_map_rows)
  from run sizes disjoint cover show ?thesis
    by (intro exI [of _ ?sp]) simp
qed

theorem split_of_100_rows_witness:
  "\<exists>sp. train_test_split (script_splitter (\<lambda>seed n. rotate seed [0 ..< n]))
           [(''loc'', map (\<lambda>i. Num (real i)) [0 ..< 100])] (replicate 100 (Num 1)) = Inr sp
       \<and> nrows (X_train sp) = 80 \<and> length (y_train sp) = 80
       \<and> nrows (X_test sp) = 20 \<and> length (y_test sp) = 20
       \<and> test_indices sp = [42 ..< 62]"
proof -
  let ?shuffle = "\<lambda>seed n. rotate seed [0 ..< n]"
  have t1: "[(''loc'', map (\<lambda>i. Num (real i)) [0 ..< 100])] \<noteq> []" by simp
  have t2: "\<forall>(c, col)\<in>set [(''loc'', map (\<lambda>i. Num (real i)) [0 ..< 100])]. length col = 100"
    by simp
  have y: "length (replicate 100 (Num 1)) = 100" by simp
  have p1: "distinct (?shuffle 42 100)" by simp
  have p2: "set (?shuffle 42 100) = {..<100}" by (simp add: atLeast0LessThan)
  have first: "take 20 (?shuffle 42 100) = [42 ..< 62]"
    by (simp add: rotate_drop_take take_upt drop_upt)
  from split_of_100_rows [of _ _ ?shuffle 42, OF t1 t2 y p1 p2] first
  show ?thesis unfolding script_splitter_def by auto
qed

end
